theory Spec2Isabelle
  imports Complex_Main "HOL-Library.Word"
begin

unbundle bit_operations_syntax

section \<open>The inotify binding: data\<close>

text \<open>
  The module \<open>inotify.binding\<close> (binding.c) is a Python 2 extension with four functions:
  \<open>init\<close>, \<open>add_watch\<close>, \<open>rm_watch\<close> and \<open>get_events\<close>. This theory embeds
  \<open>binding_add_watch\<close> and \<open>binding_get_events\<close>.

  Conventions of the embedding:
  \<^item> a C \<open>int\<close> that is only passed around (descriptors, results of system calls) is an
    \<open>int\<close> of HOL; a C \<open>int\<close> or \<open>uint32_t\<close> whose bit pattern matters is a \<open>32 word\<close>;
    \<open>sint\<close> reads it as the C \<open>int\<close> it is passed as;
  \<^item> a \<open>char\<close> array is a list of bytes; its length is the capacity of the array, and a read
    at an index outside the list is a read outside the array (\<open>Undefined\<close>);
  \<^item> a pointer into the array is its offset from the start of the array, a \<open>nat\<close>, from 0 to
    the length of the array (one past its last cell); C defines no pointer further out;
  \<^item> a Python 2 \<open>str\<close> is a list of bytes;
  \<^item> what the kernel and the C library answer is a record of the answers (the type \<open>env\<close>),
    and the system calls made are returned as a list, in the order of the calls;
  \<^item> a call that returns is \<open>Some\<close> of its outcome.
\<close>

type_synonym byte = "8 word"
type_synonym uint32_t = "32 word"

definition BUF_LENGTH :: nat where
  "BUF_LENGTH = 4096"

text \<open>
  Modelled from the spec: \<open>struct inotify_event\<close> is declared in \<open><sys/inotify.h>\<close>, which
  is not among the sources. It is \<open>int wd; uint32_t mask; uint32_t cookie; uint32_t len;
  char name[];\<close>: a fixed part of four 32-bit fields, 16 bytes, followed by \<open>len\<close> bytes of
  name. Each field is in the byte order of the host; the model fixes the little-endian
  order (x86, ARM).
\<close>

record inotify_event =
  ie_wd :: uint32_t
  ie_mask :: uint32_t
  ie_cookie :: uint32_t
  ie_len :: uint32_t

definition EVENT_SIZE :: nat where
  "EVENT_SIZE = 16"

text \<open>
  Modelled from the spec: the masks are macros of \<open><sys/inotify.h>\<close>, with the values of
  the kernel interface: \<open>IN_ALL_EVENTS\<close> is the union of the twelve kinds of event, bits 0
  to 11, and \<open>IN_ONESHOT\<close> is bit 31. \<open>FD_SETSIZE\<close>, of \<open><sys/select.h>\<close>, is 1024, and
  \<open>EINTR\<close>, of \<open><errno.h>\<close>, is 4.
\<close>

definition IN_ALL_EVENTS :: uint32_t where
  "IN_ALL_EVENTS = 0x00000fff"

definition IN_ONESHOT :: uint32_t where
  "IN_ONESHOT = 0x80000000"

definition FD_SETSIZE :: int where
  "FD_SETSIZE = 1024"

definition EINTR :: int where
  "EINTR = 4"

subsection \<open>Python values and failures\<close>

text \<open>
  A C \<open>double\<close> is its exact value, or \<open>NonFinite\<close> for an infinity or a NaN.
\<close>

datatype double = Finite rat | NonFinite

datatype pyobj = PyNone | PyInt int | PyFloat double | PyStr "byte list"

datatype exc_class = IOError | TypeError | OverflowError | MemoryError | KeyboardInterrupt

text \<open>
  What an exception carries: \<open>Errno e\<close> is the pair of \<open>errno\<close> and its \<open>strerror\<close> text that
  \<open>PyErr_SetFromErrno\<close> builds, \<open>Msg s\<close> the one string of \<open>PyErr_SetString\<close>, and
  \<open>Builtin\<close> the message of an exception that the interpreter raised itself.
\<close>

datatype exc_detail = Errno int | Msg string | Builtin

text \<open>
  A call fails with a Python exception, or leaves what C defines (\<open>Undefined\<close>: a read
  outside the array, a pointer moved further than one past the end of the array, a
  conversion of a \<open>double\<close> that does not fit an \<open>int\<close>, a descriptor that does not fit
  the \<open>fd_set\<close>).
\<close>

datatype fault = Raise exc_class exc_detail | Undefined

text \<open>
  \<open>PyErr_SetFromErrno\<close> of the interpreter: when \<open>errno\<close> is \<open>EINTR\<close> it first runs
  \<open>PyErr_CheckSignals\<close>, and where a signal handler raised an exception (\<open>pending\<close>; the
  handler of Ctrl-C raises \<open>KeyboardInterrupt\<close>) it leaves that exception; in every other
  case it raises the exception of the class given, with \<open>errno\<close> and its text.
\<close>

definition PyErr_SetFromErrno :: "exc_class \<Rightarrow> int \<Rightarrow> (exc_class \<times> exc_detail) option \<Rightarrow> fault" where
  "PyErr_SetFromErrno c errno pending =
     (if errno = EINTR
      then (case pending of Some (c', d) \<Rightarrow> Raise c' d | None \<Rightarrow> Raise c (Errno errno))
      else Raise c (Errno errno))"

type_synonym event = "int \<times> int \<times> int \<times> byte list"

record timeval =
  tv_sec :: int
  tv_usec :: int

datatype syscall =
    Select int "timeval option"
  | Read int nat
  | Inotify_add_watch int "byte list" uint32_t

subsection \<open>Reading the array\<close>

definition le32 :: "byte \<Rightarrow> byte \<Rightarrow> byte \<Rightarrow> byte \<Rightarrow> uint32_t" where
  "le32 b0 b1 b2 b3 =
     ucast b0 OR push_bit 8 (ucast b1) OR push_bit 16 (ucast b2) OR push_bit 24 (ucast b3)"

definition rd32 :: "byte list \<Rightarrow> nat \<Rightarrow> uint32_t" where
  "rd32 buf i = le32 (buf ! i) (buf ! (i + 1)) (buf ! (i + 2)) (buf ! (i + 3))"

text \<open>
  The fixed part of the record at offset \<open>p\<close>: \<open>None\<close> when it is not all inside the array.
\<close>

definition event_at :: "byte list \<Rightarrow> nat \<Rightarrow> inotify_event option" where
  "event_at buf p =
     (if p + EVENT_SIZE \<le> length buf
      then Some \<lparr>ie_wd = rd32 buf p, ie_mask = rd32 buf (p + 4),
                 ie_cookie = rd32 buf (p + 8), ie_len = rd32 buf (p + 12)\<rparr>
      else None)"

text \<open>
  The C string that starts at the head of a list of bytes: the bytes before the first NUL,
  as \<open>strlen\<close> inside \<open>Py_BuildValue("s")\<close> finds it; \<open>None\<close> when the array ends first.
\<close>

fun cstring :: "byte list \<Rightarrow> byte list option" where
  "cstring [] = None"
| "cstring (b # bs) =
     (if b = 0 then Some [] else (case cstring bs of None \<Rightarrow> None | Some s \<Rightarrow> Some (b # s)))"

definition name_at :: "byte list \<Rightarrow> nat \<Rightarrow> byte list option" where
  "name_at buf p = cstring (drop (p + EVENT_SIZE) buf)"

subsection \<open>The decode loop of \<open>binding_get_events\<close>\<close>

text \<open>
  One pass of the body of the \<open>while\<close> loop (lines 156 to 161): the tuple that
  \<open>Py_BuildValue("iiis", ...)\<close> builds from the record at \<open>event_p\<close>, with the \<open>len\<close> field
  that line 172 adds to the cursor. The format \<open>i\<close> takes each of \<open>wd\<close>, \<open>mask\<close> and
  \<open>cookie\<close> as a C \<open>int\<close>.
\<close>

definition build_event :: "byte list \<Rightarrow> nat \<Rightarrow> fault + (event \<times> nat)" where
  "build_event buf p =
     (case event_at buf p of
        None \<Rightarrow> Inl Undefined
      | Some e \<Rightarrow>
          if ie_len e \<noteq> 0
          then (case name_at buf p of
                  None \<Rightarrow> Inl Undefined
                | Some name \<Rightarrow>
                    Inr ((sint (ie_wd e), sint (ie_mask e), sint (ie_cookie e), name),
                         unat (ie_len e)))
          else Inr ((sint (ie_wd e), sint (ie_mask e), sint (ie_cookie e), []),
                    unat (ie_len e)))"

text \<open>
  The loop of lines 154 to 173. \<open>length'\<close> is the value that \<open>read\<close> returned, \<open>p\<close> the
  offset of \<open>event_p\<close> in \<open>buffer\<close>, \<open>events\<close> the list built so far; \<open>ok k\<close> tells whether
  \<open>PyList_Append\<close> succeeds on a list of \<open>k\<close> elements (it fails when the interpreter has no
  memory left). \<open>PyList_New\<close> and \<open>Py_BuildValue\<close>, whose results the code does not check,
  are taken to succeed. Line 172 adds \<open>sizeof(struct inotify_event) + len\<close> to the pointer,
  a machine pointer and not a number: when the sum is further than one past the end of
  the array, C defines neither the pointer nor what follows (with pointers of 32 bits the
  sum counts modulo \<open>2 ^ 32\<close>), and the pass ends in \<open>Undefined\<close>.
\<close>

partial_function (option) decode_loop ::
  "(nat \<Rightarrow> bool) \<Rightarrow> byte list \<Rightarrow> int \<Rightarrow> nat \<Rightarrow> event list \<Rightarrow> (fault + event list) option"
where
  "decode_loop ok buf length' p events =
     (if int p < length'
      then (case build_event buf p of
              Inl f \<Rightarrow> Some (Inl f)
            | Inr (event_o, len) \<Rightarrow>
                if ok (length events)
                then if p + EVENT_SIZE + len \<le> length buf
                  then decode_loop ok buf length' (p + EVENT_SIZE + len) (events @ [event_o])
                  else Some (Inl Undefined)
                else Some (Inl (Raise MemoryError Builtin)))
      else Some (Inr events))"

text \<open>
  The offset of \<open>event_p\<close> after \<open>i\<close> passes of the loop that started at offset \<open>p\<close>: each
  pass adds the size of the fixed part and the \<open>len\<close> field of the record under the
  pointer (line 172).
\<close>

primrec cursor_after :: "byte list \<Rightarrow> nat \<Rightarrow> nat \<Rightarrow> nat" where
  "cursor_after buf p 0 = p"
| "cursor_after buf p (Suc i) =
     cursor_after buf p i + EVENT_SIZE + unat (rd32 buf (cursor_after buf p i + 12))"

subsection \<open>Arguments\<close>

text \<open>
  \<open>PyArg_ParseTuple\<close> converts the arguments from left to right and stops at the first that
  fails. The format \<open>i\<close> takes a Python integer that fits a C \<open>int\<close>; \<open>s\<close> takes a string
  with no NUL byte in it; \<open>O\<close> takes any object as it is.
\<close>

fun convert_i :: "pyobj \<Rightarrow> fault + int" where
  "convert_i (PyInt v) =
     (if - (2 ^ 31) \<le> v \<and> v < 2 ^ 31 then Inr v else Inl (Raise OverflowError Builtin))"
| "convert_i _ = Inl (Raise TypeError Builtin)"

fun convert_s :: "pyobj \<Rightarrow> fault + byte list" where
  "convert_s (PyStr s) = (if 0 \<in> set s then Inl (Raise TypeError Builtin) else Inr s)"
| "convert_s _ = Inl (Raise TypeError Builtin)"

text \<open>
  \<open>PyArg_ParseTuple(args, "i|O", &fd, &timeout_o)\<close>: the second component is the pointer
  \<open>timeout_o\<close>, which stays \<open>NULL\<close> (\<open>None\<close> here) when the caller gives one argument.
\<close>

fun parse_get_events :: "pyobj list \<Rightarrow> fault + (int \<times> pyobj option)" where
  "parse_get_events [a] =
     (case convert_i a of Inl f \<Rightarrow> Inl f | Inr fd \<Rightarrow> Inr (fd, None))"
| "parse_get_events [a, b] =
     (case convert_i a of Inl f \<Rightarrow> Inl f | Inr fd \<Rightarrow> Inr (fd, Some b))"
| "parse_get_events _ = Inl (Raise TypeError Builtin)"

text \<open>
  \<open>PyArg_ParseTuple(args, "is|i", &fd, &path, &mask)\<close>: \<open>mask\<close> keeps the value it had
  before the call when the caller gives two arguments; a third argument is stored into it
  as a C \<open>int\<close>.
\<close>

fun parse_add_watch :: "uint32_t \<Rightarrow> pyobj list \<Rightarrow> fault + (int \<times> byte list \<times> uint32_t)" where
  "parse_add_watch mask0 [a, b] =
     (case convert_i a of
        Inl f \<Rightarrow> Inl f
      | Inr fd \<Rightarrow> (case convert_s b of Inl f \<Rightarrow> Inl f | Inr path \<Rightarrow> Inr (fd, path, mask0)))"
| "parse_add_watch mask0 [a, b, c] =
     (case convert_i a of
        Inl f \<Rightarrow> Inl f
      | Inr fd \<Rightarrow>
          (case convert_s b of
             Inl f \<Rightarrow> Inl f
           | Inr path \<Rightarrow>
               (case convert_i c of Inl f \<Rightarrow> Inl f | Inr m \<Rightarrow> Inr (fd, path, word_of_int m))))"
| "parse_add_watch mask0 _ = Inl (Raise TypeError Builtin)"

subsection \<open>\<open>binding_add_watch\<close>\<close>

text \<open>
  The answers of the system for one call: what \<open>inotify_add_watch\<close> returns, the \<open>errno\<close>
  it leaves, and the exception that a signal handler raises when \<open>PyErr_CheckSignals\<close>
  runs, if one does.
\<close>

record watch_env =
  add_watch_result :: int
  add_watch_errno :: int
  add_watch_signal :: "(exc_class \<times> exc_detail) option"

definition add_watch :: "watch_env \<Rightarrow> pyobj list \<Rightarrow> syscall list \<times> (fault + int)" where
  "add_watch env args =
     (case parse_add_watch IN_ALL_EVENTS args of
        Inl f \<Rightarrow> ([], Inl f)
      | Inr (fd, path, mask') \<Rightarrow>
          ([Inotify_add_watch fd path mask'],
           if add_watch_result env = - 1
           then Inl (PyErr_SetFromErrno IOError (add_watch_errno env) (add_watch_signal env))
           else Inr (add_watch_result env)))"

subsection \<open>The timeout of \<open>binding_get_events\<close>\<close>

text \<open>
  \<open>PyFloat_AsDouble\<close> of the interpreter: the value of a float; the conversion of an
  integer, which raises \<open>OverflowError\<close> when the integer rounds to no finite \<open>double\<close>
  (from \<open>2 ^ 1024 - 2 ^ 970\<close> on) and is exact up to \<open>2 ^ 53\<close> (between the two the
  \<open>double\<close> is the integer rounded, and the integer and the \<open>double\<close> are both too large for
  an \<open>int\<close>); and a \<open>TypeError\<close> for the \<open>NULL\<close> pointer and for an object with no
  conversion to float.
\<close>

fun PyFloat_AsDouble :: "pyobj option \<Rightarrow> fault + double" where
  "PyFloat_AsDouble None = Inl (Raise TypeError Builtin)"
| "PyFloat_AsDouble (Some (PyFloat d)) = Inr d"
| "PyFloat_AsDouble (Some (PyInt i)) =
     (if \<bar>i\<bar> < 2 ^ 1024 - 2 ^ 970 then Inr (Finite (of_int i))
      else Inl (Raise OverflowError Builtin))"
| "PyFloat_AsDouble (Some _) = Inl (Raise TypeError Builtin)"

text \<open>
  The cast \<open>(int)x\<close> of a \<open>double\<close>: the value with its fraction dropped (towards zero),
  defined when that fits an \<open>int\<close>.
\<close>

definition trunc :: "rat \<Rightarrow> int" where
  "trunc x = (if 0 \<le> x then \<lfloor>x\<rfloor> else \<lceil>x\<rceil>)"

definition int_of_double :: "rat \<Rightarrow> int option" where
  "int_of_double x =
     (if - (2 ^ 31) \<le> trunc x \<and> trunc x < 2 ^ 31 then Some (trunc x) else None)"

text \<open>
  Lines 114 to 123. \<open>rnd\<close> is the rounding of the floating-point unit: the subtraction and
  the product are each rounded to a \<open>double\<close>. The result is the pointer \<open>timeout_p\<close>,
  \<open>None\<close> for \<open>NULL\<close>.
\<close>

definition convert_timeout :: "(rat \<Rightarrow> rat) \<Rightarrow> pyobj option \<Rightarrow> fault + timeval option" where
  "convert_timeout rnd timeout_o =
     (if timeout_o \<noteq> Some PyNone
      then (case PyFloat_AsDouble timeout_o of
              Inl f \<Rightarrow> Inl f
            | Inr NonFinite \<Rightarrow> Inl Undefined
            | Inr (Finite timeout_d) \<Rightarrow>
                (case int_of_double timeout_d of
                   None \<Rightarrow> Inl Undefined
                 | Some sec \<Rightarrow>
                     (case int_of_double (rnd (1000000 * rnd (timeout_d - of_int sec))) of
                        None \<Rightarrow> Inl Undefined
                      | Some usec \<Rightarrow> Inr (Some \<lparr>tv_sec = sec, tv_usec = usec\<rparr>))))
      else Inr None)"

subsection \<open>\<open>binding_get_events\<close>\<close>

text \<open>
  The answers of the system for one call: the rounding of the floating-point unit, what
  \<open>select\<close> and \<open>read\<close> return and the \<open>errno\<close> each leaves, the exception that a signal
  handler raises when \<open>PyErr_CheckSignals\<close> runs (\<open>None\<close> when no handler raises), the
  bytes that \<open>read\<close> stores at the start of \<open>buffer\<close>, what the cells of \<open>buffer\<close> held
  before, and whether \<open>PyList_Append\<close> succeeds on a list of \<open>k\<close> elements.
\<close>

record env =
  fp_round :: "rat \<Rightarrow> rat"
  select_result :: int
  select_errno :: int
  read_result :: int
  read_errno :: int
  check_signals :: "(exc_class \<times> exc_detail) option"
  read_bytes :: "byte list"
  stack_bytes :: "nat \<Rightarrow> byte"
  append_ok :: "nat \<Rightarrow> bool"

text \<open>The array \<open>char buffer[BUF_LENGTH]\<close> after the call of \<open>read\<close>.\<close>

definition buffer :: "env \<Rightarrow> byte list" where
  "buffer env =
     map (\<lambda>i. if i < length (read_bytes env) then read_bytes env ! i else stack_bytes env i)
       [0..<BUF_LENGTH]"

text \<open>What follows the call of \<open>select\<close> (lines 132 to 175).\<close>

definition after_select ::
  "env \<Rightarrow> int \<Rightarrow> syscall list \<times> (fault + event list) option" where
  "after_select env fd =
     (if select_result env = - 1
      then ([], Some (Inl (PyErr_SetFromErrno IOError (select_errno env) (check_signals env))))
      else if select_result env = 0
      then ([], Some (Inr []))
      else
        ([Read fd BUF_LENGTH],
         if read_result env = - 1
         then Some (Inl (PyErr_SetFromErrno IOError (read_errno env) (check_signals env)))
         else if read_result env = 0
         then Some (Inl (Raise IOError (Msg ''event buffer too small'')))
         else decode_loop (append_ok env) (buffer env) (read_result env) 0 []))"

text \<open>
  Lines 111 to 126, up to the call of \<open>select\<close>: the descriptor and the pointer
  \<open>timeout_p\<close>. \<open>FD_SET\<close> is defined for a descriptor from 0 to \<open>FD_SETSIZE - 1\<close>.
\<close>

definition prologue :: "env \<Rightarrow> pyobj list \<Rightarrow> fault + (int \<times> timeval option)" where
  "prologue env args =
     (case parse_get_events args of
        Inl f \<Rightarrow> Inl f
      | Inr (fd, timeout_o) \<Rightarrow>
          (case convert_timeout (fp_round env) timeout_o of
             Inl f \<Rightarrow> Inl f
           | Inr timeout_p \<Rightarrow>
               if 0 \<le> fd \<and> fd < FD_SETSIZE then Inr (fd, timeout_p) else Inl Undefined))"

text \<open>The whole function: the system calls it makes, in order, and its outcome.\<close>

definition get_events ::
  "env \<Rightarrow> pyobj list \<Rightarrow> syscall list \<times> (fault + event list) option" where
  "get_events env args =
     (case prologue env args of
        Inl f \<Rightarrow> ([], Some (Inl f))
      | Inr (fd, timeout_p) \<Rightarrow>
          (Select (fd + 1) timeout_p # fst (after_select env fd), snd (after_select env fd)))"

text \<open>The class of the exception that an outcome raises, if it raises one.\<close>

fun raised_class :: "(fault + 'a) option \<Rightarrow> exc_class option" where
  "raised_class (Some (Inl (Raise c d))) = Some c"
| "raised_class _ = None"


section \<open>The wire format, as the specification words it\<close>

text \<open>
  A record on the wire has a watch descriptor (signed 32-bit), a mask and a cookie
  (unsigned 32-bit), and a name; \<open>w_pad\<close> is the number of NUL bytes that follow the name in
  the name field, so that \<open>name_length\<close> is the length of the name plus \<open>w_pad\<close>.
\<close>

record wire_record =
  w_wd :: int
  w_mask :: int
  w_cookie :: int
  w_name :: "byte list"
  w_pad :: nat

definition enc32 :: "uint32_t \<Rightarrow> byte list" where
  "enc32 w = [ucast w, ucast (drop_bit 8 w), ucast (drop_bit 16 w), ucast (drop_bit 24 w)]"

definition encode_record :: "wire_record \<Rightarrow> byte list" where
  "encode_record r =
     enc32 (word_of_int (w_wd r)) @ enc32 (word_of_int (w_mask r)) @
     enc32 (word_of_int (w_cookie r)) @ enc32 (of_nat (length (w_name r) + w_pad r)) @
     w_name r @ replicate (w_pad r) 0"

definition encode_all :: "wire_record list \<Rightarrow> byte list" where
  "encode_all rs = concat (map encode_record rs)"

text \<open>
  A well-formed record: every field in the range of its type, no NUL inside the name, and a
  name that is not empty is followed by at least one NUL.
\<close>

definition well_formed :: "wire_record \<Rightarrow> bool" where
  "well_formed r \<longleftrightarrow>
     - (2 ^ 31) \<le> w_wd r \<and> w_wd r < 2 ^ 31 \<and>
     0 \<le> w_mask r \<and> w_mask r < 2 ^ 32 \<and>
     0 \<le> w_cookie r \<and> w_cookie r < 2 ^ 32 \<and>
     0 \<notin> set (w_name r) \<and>
     (w_name r = [] \<or> 0 < w_pad r) \<and>
     length (w_name r) + w_pad r < 2 ^ 32"

text \<open>The value of an unsigned 32-bit number when its bits are read as a C \<open>int\<close>.\<close>

definition as_int :: "int \<Rightarrow> int" where
  "as_int x = (if x < 2 ^ 31 then x else x - 2 ^ 32)"

text \<open>The tuple that the decoder returns for a record.\<close>

definition decoded :: "wire_record \<Rightarrow> event" where
  "decoded r = (w_wd r, as_int (w_mask r), as_int (w_cookie r), w_name r)"

section \<open>Sample calls\<close>

text \<open>
  Answers of the system used to run the functions on concrete calls: an interpreter with
  memory left, an array whose cells all held 0 before the call, one whose cell 8 held 1,
  and an exact floating-point unit.
\<close>

definition append_succeeds :: "nat \<Rightarrow> bool" where
  "append_succeeds k = True"

definition zero_stack :: "nat \<Rightarrow> byte" where
  "zero_stack i = 0"

definition stale_stack :: "nat \<Rightarrow> byte" where
  "stale_stack i = (if i = 8 then 1 else 0)"

definition exact :: "rat \<Rightarrow> rat" where
  "exact x = x"

text \<open>No descriptor is ready when the wait ends.\<close>

definition env_idle :: env where
  "env_idle =
     \<lparr>fp_round = exact, select_result = 0, select_errno = 0, read_result = 0,
      read_errno = 0, check_signals = None, read_bytes = [], stack_bytes = zero_stack,
      append_ok = append_succeeds\<rparr>"

text \<open>The wait fails with \<open>EINVAL\<close> (22).\<close>

definition env_wait_fails :: env where
  "env_wait_fails =
     \<lparr>fp_round = exact, select_result = - 1, select_errno = 22, read_result = 0,
      read_errno = 0, check_signals = None, read_bytes = [], stack_bytes = zero_stack,
      append_ok = append_succeeds\<rparr>"

text \<open>
  The wait is interrupted by Ctrl-C: \<open>select\<close> fails with \<open>EINTR\<close>, and the handler of the
  signal raises \<open>KeyboardInterrupt\<close>.
\<close>

definition env_interrupted :: env where
  "env_interrupted =
     \<lparr>fp_round = exact, select_result = - 1, select_errno = 4, read_result = 0,
      read_errno = 0, check_signals = Some (KeyboardInterrupt, Builtin), read_bytes = [],
      stack_bytes = zero_stack, append_ok = append_succeeds\<rparr>"

text \<open>The descriptor is ready and the read fails with \<open>EIO\<close> (5).\<close>

definition env_read_fails :: env where
  "env_read_fails =
     \<lparr>fp_round = exact, select_result = 1, select_errno = 0, read_result = - 1,
      read_errno = 5, check_signals = None, read_bytes = [], stack_bytes = zero_stack,
      append_ok = append_succeeds\<rparr>"


text \<open>
  The descriptor is ready and the read returns 8 bytes, half of the fixed part of a
  record; the two differ in what cell 8 of the array held before the call.
\<close>

definition env_short :: env where
  "env_short =
     \<lparr>fp_round = exact, select_result = 1, select_errno = 0, read_result = 8,
      read_errno = 0, check_signals = None, read_bytes = [1, 0, 0, 0, 2, 0, 0, 0],
      stack_bytes = zero_stack, append_ok = append_succeeds\<rparr>"

definition env_short_stale :: env where
  "env_short_stale =
     \<lparr>fp_round = exact, select_result = 1, select_errno = 0, read_result = 8,
      read_errno = 0, check_signals = None, read_bytes = [1, 0, 0, 0, 2, 0, 0, 0],
      stack_bytes = stale_stack, append_ok = append_succeeds\<rparr>"

text \<open>
  The descriptor is ready and the read returns the 16 bytes of the fixed part of a
  record whose \<open>len\<close> is 16, without the name; the two differ in what cell 16 of the array
  held before the call.
\<close>

definition name_stack :: "nat \<Rightarrow> byte" where
  "name_stack i = (if i = 16 then 97 else 0)"

definition env_no_name :: env where
  "env_no_name =
     \<lparr>fp_round = exact, select_result = 1, select_errno = 0, read_result = 16,
      read_errno = 0, check_signals = None,
      read_bytes = [1, 0, 0, 0, 0, 1, 0, 0, 0, 0, 0, 0, 16, 0, 0, 0],
      stack_bytes = zero_stack, append_ok = append_succeeds\<rparr>"

definition env_no_name_stale :: env where
  "env_no_name_stale =
     \<lparr>fp_round = exact, select_result = 1, select_errno = 0, read_result = 16,
      read_errno = 0, check_signals = None,
      read_bytes = [1, 0, 0, 0, 0, 1, 0, 0, 0, 0, 0, 0, 16, 0, 0, 0],
      stack_bytes = name_stack, append_ok = append_succeeds\<rparr>"

text \<open>
  The descriptor is ready and the read returns the fixed part of a record whose \<open>len\<close> is
  \<open>2 ^ 32 - 16\<close>.
\<close>

definition env_far :: env where
  "env_far =
     \<lparr>fp_round = exact, select_result = 1, select_errno = 0, read_result = 16,
      read_errno = 0, check_signals = None,
      read_bytes = [1, 0, 0, 0, 2, 0, 0, 0, 0, 0, 0, 0, 240, 255, 255, 255],
      stack_bytes = zero_stack, append_ok = append_succeeds\<rparr>"

text \<open>
  Two records: a creation of \<open>ab\<close> in the directory of watch 1 (the name padded to 16
  bytes), and an event with no name whose mask has the bit \<open>IN_ONESHOT\<close> and whose cookie is
  \<open>2 ^ 31\<close>.
\<close>

definition rec_create :: wire_record where
  "rec_create = \<lparr>w_wd = 1, w_mask = 256, w_cookie = 0, w_name = [97, 98], w_pad = 14\<rparr>"

definition rec_high :: wire_record where
  "rec_high =
     \<lparr>w_wd = 2, w_mask = 2147483648, w_cookie = 2147483648, w_name = [], w_pad = 0\<rparr>"

text \<open>The descriptor is ready and the read returns these two records.\<close>

definition env_two :: env where
  "env_two =
     \<lparr>fp_round = exact, select_result = 1, select_errno = 0,
      read_result = int (length (encode_all [rec_create, rec_high])), read_errno = 0,
      check_signals = None, read_bytes = encode_all [rec_create, rec_high], stack_bytes = stale_stack,
      append_ok = append_succeeds\<rparr>"

section \<open>The decoder on encoded records\<close>

lemma le32_enc: "le32 (ucast w) (ucast (drop_bit 8 w)) (ucast (drop_bit 16 w)) (ucast (drop_bit 24 w)) = w"
  unfolding le32_def
  apply (rule bit_word_eqI)
  apply (simp add: bit_simps)
  apply (auto simp: not_less)
  subgoal for n by (cases "24 \<le> n") simp_all
  done

lemma rd32_enc32: "rd32 (pre @ enc32 w @ rest) (length pre) = w"
  by (simp add: rd32_def enc32_def nth_append le32_enc)

lemma length_enc32: "length (enc32 w) = 4"
  by (simp add: enc32_def)

lemma rd32_enc32_at:
  "length pre = i \<Longrightarrow> rd32 (pre @ enc32 w @ rest) i = w"
  using rd32_enc32 by blast

lemma sint_wd: "- (2 ^ 31) \<le> x \<Longrightarrow> x < 2 ^ 31 \<Longrightarrow> sint (word_of_int x :: uint32_t) = x"
  by (simp add: sint_sbintrunc' signed_take_bit_int_eq_self)

lemma word_of_int_shift: "(word_of_int x :: uint32_t) = word_of_int (x - 2 ^ 32)"
proof -
  have "(word_of_int (x - 2 ^ 32) :: uint32_t) = word_of_int x - word_of_int (2 ^ 32)"
    by (simp only: word_of_int_homs)
  also have "(word_of_int (2 ^ 32) :: uint32_t) = 0"
    by simp
  finally show ?thesis by simp
qed

lemma sint_as_int: 
  assumes "0 \<le> x" "x < 2 ^ 32" 
  shows "sint (word_of_int x :: uint32_t) = as_int x"
proof (cases "x < 2 ^ 31")
  case True
  with assms show ?thesis by (simp add: as_int_def sint_wd)
next
  case False
  have "sint (word_of_int (x - 2 ^ 32) :: uint32_t) = x - 2 ^ 32"
    using assms False by (intro sint_wd) simp_all
  then have "sint (word_of_int x :: uint32_t) = x - 2 ^ 32"
    by (subst word_of_int_shift)
  then show ?thesis using False by (simp add: as_int_def)
qed

lemma unat_len: "n < 2 ^ 32 \<Longrightarrow> unat (of_nat n :: uint32_t) = n"
  by (rule of_nat_inverse) simp_all

lemma len_zero_iff: "n < 2 ^ 32 \<Longrightarrow> (of_nat n :: uint32_t) = 0 \<longleftrightarrow> n = 0"
  using unat_len [of n] by (auto simp: unat_eq_0 [symmetric] simp del: unat_eq_0)

lemma cstring_name: "0 \<notin> set s \<Longrightarrow> cstring (s @ 0 # rest) = Some s"
  by (induction s) auto

lemma length_encode_record: "length (encode_record r) = EVENT_SIZE + (length (w_name r) + w_pad r)"
  by (simp add: encode_record_def EVENT_SIZE_def enc32_def)

lemma event_at_encode:
  "event_at (pre @ encode_record r @ rest) (length pre) =
     Some \<lparr>ie_wd = word_of_int (w_wd r), ie_mask = word_of_int (w_mask r),
           ie_cookie = word_of_int (w_cookie r),
           ie_len = of_nat (length (w_name r) + w_pad r)\<rparr>"
proof -
  let ?a = "enc32 (word_of_int (w_wd r))" and ?b = "enc32 (word_of_int (w_mask r))"
  let ?c = "enc32 (word_of_int (w_cookie r))"
  let ?d = "enc32 (of_nat (length (w_name r) + w_pad r))"
  let ?t = "w_name r @ replicate (w_pad r) 0 @ rest"
  let ?buf = "pre @ encode_record r @ rest"
  have 1: "?buf = pre @ ?a @ (?b @ ?c @ ?d @ ?t)"
    and 2: "?buf = (pre @ ?a) @ ?b @ (?c @ ?d @ ?t)"
    and 3: "?buf = (pre @ ?a @ ?b) @ ?c @ (?d @ ?t)"
    and 4: "?buf = (pre @ ?a @ ?b @ ?c) @ ?d @ ?t"
    by (simp_all add: encode_record_def)
  have "rd32 ?buf (length pre) = word_of_int (w_wd r)"
    by (subst 1) (rule rd32_enc32)
  moreover have "rd32 ?buf (length pre + 4) = word_of_int (w_mask r)"
    by (subst 2) (rule rd32_enc32_at, simp add: length_enc32)
  moreover have "rd32 ?buf (length pre + 8) = word_of_int (w_cookie r)"
    by (subst 3) (rule rd32_enc32_at, simp add: length_enc32)
  moreover have "rd32 ?buf (length pre + 12) = of_nat (length (w_name r) + w_pad r)"
    by (subst 4) (rule rd32_enc32_at, simp add: length_enc32)
  moreover have "length pre + EVENT_SIZE \<le> length ?buf"
    by (simp add: length_encode_record)
  ultimately show ?thesis
    by (simp add: event_at_def)
qed

lemma name_at_encode:
  assumes "0 \<notin> set (w_name r)" "0 < w_pad r"
  shows "name_at (pre @ encode_record r @ rest) (length pre) = Some (w_name r)"
proof -
  obtain k where k: "w_pad r = Suc k"
    using assms(2) by (cases "w_pad r") simp_all
  have "drop (length pre + EVENT_SIZE) (pre @ encode_record r @ rest) =
          w_name r @ 0 # (replicate k 0 @ rest)"
    by (simp add: encode_record_def EVENT_SIZE_def length_enc32 k)
  then show ?thesis
    using assms(1) by (simp add: name_at_def cstring_name)
qed

lemma build_event_encode:
  assumes "well_formed r"
  shows "build_event (pre @ encode_record r @ rest) (length pre) =
           Inr (decoded r, length (w_name r) + w_pad r)"
proof -
  from assms have wd: "sint (word_of_int (w_wd r) :: uint32_t) = w_wd r"
    and ma: "sint (word_of_int (w_mask r) :: uint32_t) = as_int (w_mask r)"
    and co: "sint (word_of_int (w_cookie r) :: uint32_t) = as_int (w_cookie r)"
    by (simp_all add: well_formed_def sint_wd sint_as_int)
  from assms have n: "length (w_name r) + w_pad r < 2 ^ 32"
    by (simp add: well_formed_def)
  have le: "unat (of_nat (length (w_name r) + w_pad r) :: uint32_t) = length (w_name r) + w_pad r"
    using n by (rule unat_len)
  have z: "(of_nat (length (w_name r) + w_pad r) :: uint32_t) = 0 \<longleftrightarrow> length (w_name r) + w_pad r = 0"
    using n by (rule len_zero_iff)
  show ?thesis
  proof (cases "w_pad r = 0")
    case True
    with assms have "w_name r = []" by (simp add: well_formed_def)
    with True wd ma co le z show ?thesis
      by (simp add: build_event_def event_at_encode decoded_def del: of_nat_add)
  next
    case False
    with assms have "name_at (pre @ encode_record r @ rest) (length pre) = Some (w_name r)"
      by (intro name_at_encode) (simp_all add: well_formed_def)
    with False wd ma co le z show ?thesis
      by (simp add: build_event_def event_at_encode decoded_def del: of_nat_add)
  qed
qed

lemma decode_loop_encode:
  assumes "\<forall>r\<in>set rs. well_formed r"
    and "\<forall>k. length evs \<le> k \<and> k < length evs + length rs \<longrightarrow> ok k"
  shows "decode_loop ok (pre @ encode_all rs @ rest)
           (int (length pre + length (encode_all rs))) (length pre) evs =
         Some (Inr (evs @ map decoded rs))"
  using assms
proof (induction rs arbitrary: pre evs)
  case Nil
  then show ?case
    by (subst decode_loop.simps) (simp add: encode_all_def)
next
  case (Cons r rs)
  let ?n = "length (w_name r) + w_pad r"
  have enc: "encode_all (r # rs) = encode_record r @ encode_all rs"
    by (simp add: encode_all_def)
  have b: "build_event (pre @ encode_record r @ (encode_all rs @ rest)) (length pre) =
             Inr (decoded r, ?n)"
    using Cons.prems(1) by (intro build_event_encode) simp
  have ok: "ok (length evs)"
    using Cons.prems(2) by simp
  have IH: "decode_loop ok ((pre @ encode_record r) @ encode_all rs @ rest)
              (int (length (pre @ encode_record r) + length (encode_all rs)))
              (length (pre @ encode_record r)) (evs @ [decoded r]) =
            Some (Inr ((evs @ [decoded r]) @ map decoded rs))"
    using Cons.prems by (intro Cons.IH) auto
  have p: "length pre + EVENT_SIZE + ?n = length (pre @ encode_record r)"
    by (simp add: length_encode_record)
  have lt: "int (length pre) < int (length pre + length (encode_all (r # rs)))"
    by (simp add: enc length_encode_record EVENT_SIZE_def)
  have inside: "length (pre @ encode_record r) \<le>
      length (pre @ encode_record r @ encode_all rs @ rest)"
    by simp
  show ?case
    apply (subst decode_loop.simps)
    apply (simp only: lt if_True)
    apply (simp only: enc append_assoc b sum.case prod.case ok if_True p inside)
    using IH apply (simp add: enc add.assoc)
    done
qed

section \<open>One pass of the decode loop\<close>

text \<open>
  Each pass moves the cursor by \<open>EVENT_SIZE\<close> plus the \<open>len\<close> field of the record it read,
  and goes on when the cursor is still in the array or at its end.
\<close>

lemma build_event_len:
  "build_event buf p = Inr (e, len) \<Longrightarrow> \<exists>h. event_at buf p = Some h \<and> len = unat (ie_len h)"
  by (auto simp: build_event_def split: option.splits if_splits)

lemma build_event_len_field:
  "build_event buf p = Inr (e, len) \<Longrightarrow> len = unat (rd32 buf (p + 12))"
  by (auto simp: build_event_def event_at_def split: option.splits if_splits)

lemma decode_loop_step:
  assumes "int p < length'" and "build_event buf p = Inr (e, len)" and "ok (length events)"
    and "p + EVENT_SIZE + len \<le> length buf"
  shows "decode_loop ok buf length' p events =
           decode_loop ok buf length' (p + EVENT_SIZE + len) (events @ [e])"
  using assms by (subst decode_loop.simps) simp

lemma decode_loop_leave:
  assumes "int p < length'" and "build_event buf p = Inr (e, len)" and "ok (length events)"
    and "length buf < p + EVENT_SIZE + len"
  shows "decode_loop ok buf length' p events = Some (Inl Undefined)"
  using assms by (subst decode_loop.simps) simp

lemma cursor_after_shift:
  "cursor_after buf p (Suc i) =
     cursor_after buf (p + EVENT_SIZE + unat (rd32 buf (p + 12))) i"
  by (induction i) simp_all

lemma cursor_after_ge: "p + EVENT_SIZE * i \<le> cursor_after buf p i"
  by (induction i) simp_all

lemma cstring_zero:
  "i < length buf \<Longrightarrow> buf ! i = 0 \<Longrightarrow> cstring (drop i buf) = Some []"
  by (simp flip: Cons_nth_drop_Suc)

lemma cstring_byte:
  "i < length buf \<Longrightarrow> buf ! i \<noteq> 0 \<Longrightarrow>
     cstring (drop i buf) =
       (case cstring (drop (Suc i) buf) of None \<Rightarrow> None | Some s \<Rightarrow> Some (buf ! i # s))"
  by (simp flip: Cons_nth_drop_Suc)

section \<open>The array and the start of \<open>get_events\<close>\<close>

lemma length_buffer: "length (buffer env) = BUF_LENGTH"
  by (simp add: buffer_def)

lemma buffer_nth:
  "i < BUF_LENGTH \<Longrightarrow>
     buffer env ! i = (if i < length (read_bytes env) then read_bytes env ! i else stack_bytes env i)"
  by (simp add: buffer_def)

lemma buffer_append:
  assumes "length (read_bytes env) \<le> BUF_LENGTH"
  shows "buffer env =
           read_bytes env @ map (stack_bytes env) [length (read_bytes env)..<BUF_LENGTH]"
  using assms by (auto simp: list_eq_iff_nth_eq length_buffer buffer_nth nth_append)

lemma get_events_after_prologue:
  "prologue env args = Inr (fd, timeout_p) \<Longrightarrow>
     get_events env args =
       (Select (fd + 1) timeout_p # fst (after_select env fd), snd (after_select env fd))"
  by (simp add: get_events_def)

lemma prologue_None:
  "convert_i a = Inr fd \<Longrightarrow> 0 \<le> fd \<Longrightarrow> fd < FD_SETSIZE \<Longrightarrow>
     prologue env [a, PyNone] = Inr (fd, None)"
  by (simp add: prologue_def convert_timeout_def)

lemma prologue_sample_None: "prologue env [PyInt 3, PyNone] = Inr (3, None)"
  by (rule prologue_None) (simp_all add: FD_SETSIZE_def)

lemma trunc_0: "trunc 0 = 0"
  by (simp add: trunc_def)

lemma prologue_sample_zero:
  "fp_round env = exact \<Longrightarrow> prologue env [PyInt 3, PyFloat (Finite 0)] = Inr (3, Some \<lparr>tv_sec = 0, tv_usec = 0\<rparr>)"
  by (simp add: prologue_def convert_timeout_def int_of_double_def trunc_0 exact_def FD_SETSIZE_def)

section \<open>The outcomes of \<open>get_events\<close>\<close>

text \<open>
  C4: when the call reaches the wait and \<open>select\<close> returns 0 (the wait expired with no
  descriptor ready), \<open>get_events\<close> makes no other system call and returns the empty list;
  it raises nothing. The sample call has the timeout 0.
\<close>

theorem wait_expired_returns_empty:
  assumes "prologue env args = Inr (fd, timeout_p)" and "select_result env = 0"
  shows "get_events env args = ([Select (fd + 1) timeout_p], Some (Inr []))"
  using assms by (simp add: get_events_after_prologue after_select_def)

theorem wait_expired_returns_empty_witness:
  "prologue env_idle [PyInt 3, PyFloat (Finite 0)] = Inr (3, Some \<lparr>tv_sec = 0, tv_usec = 0\<rparr>) \<and>
   select_result env_idle = 0 \<and>
   get_events env_idle [PyInt 3, PyFloat (Finite 0)] =
     ([Select 4 (Some \<lparr>tv_sec = 0, tv_usec = 0\<rparr>)], Some (Inr []))"
proof -
  have p: "prologue env_idle [PyInt 3, PyFloat (Finite 0)] = Inr (3, Some \<lparr>tv_sec = 0, tv_usec = 0\<rparr>)"
    by (rule prologue_sample_zero) (simp add: env_idle_def)
  have s: "select_result env_idle = 0"
    by (simp add: env_idle_def)
  from wait_expired_returns_empty [OF p s] p s show ?thesis by simp
qed

text \<open>
  C7, as amended: when \<open>select\<close> returns -1, or the descriptor is ready and \<open>read\<close> returns
  -1, \<open>get_events\<close> returns no list of events and raises what \<open>PyErr_SetFromErrno\<close> leaves:
  the \<open>IOError\<close> with the \<open>errno\<close> of the failed call and its text, unless that \<open>errno\<close> is
  \<open>EINTR\<close> and a signal handler raised an exception, which is then the exception raised.
\<close>

theorem wait_or_read_failure_raises:
  assumes "prologue env args = Inr (fd, timeout_p)"
  shows "(select_result env = - 1 \<and>
            (select_errno env \<noteq> EINTR \<or> check_signals env = None) \<longrightarrow>
            get_events env args =
              ([Select (fd + 1) timeout_p],
               Some (Inl (Raise IOError (Errno (select_errno env)))))) \<and>
         (select_result env = - 1 \<and> select_errno env = EINTR \<and>
            check_signals env = Some (c, d) \<longrightarrow>
            get_events env args = ([Select (fd + 1) timeout_p], Some (Inl (Raise c d)))) \<and>
         (select_result env \<noteq> - 1 \<and> select_result env \<noteq> 0 \<and> read_result env = - 1 \<and>
            (read_errno env \<noteq> EINTR \<or> check_signals env = None) \<longrightarrow>
            get_events env args =
              ([Select (fd + 1) timeout_p, Read fd BUF_LENGTH],
               Some (Inl (Raise IOError (Errno (read_errno env)))))) \<and>
         (select_result env \<noteq> - 1 \<and> select_result env \<noteq> 0 \<and> read_result env = - 1 \<and>
            read_errno env = EINTR \<and> check_signals env = Some (c, d) \<longrightarrow>
            get_events env args =
              ([Select (fd + 1) timeout_p, Read fd BUF_LENGTH], Some (Inl (Raise c d)))) \<and>
         (select_result env = - 1 \<or>
            select_result env \<noteq> 0 \<and> read_result env = - 1 \<longrightarrow>
            (\<exists>f. snd (get_events env args) = Some (Inl f)))"
proof -
  have g: "get_events env args =
      (Select (fd + 1) timeout_p # fst (after_select env fd), snd (after_select env fd))"
    using assms by (rule get_events_after_prologue)
  show ?thesis
    unfolding g by (auto simp: after_select_def PyErr_SetFromErrno_def)
qed

theorem wait_or_read_failure_raises_witness:
  "prologue env_wait_fails [PyInt 3, PyNone] = Inr (3, None) \<and>
   select_result env_wait_fails = - 1 \<and> select_errno env_wait_fails \<noteq> EINTR \<and>
   get_events env_wait_fails [PyInt 3, PyNone] =
     ([Select 4 None], Some (Inl (Raise IOError (Errno 22)))) \<and>
   prologue env_interrupted [PyInt 3, PyNone] = Inr (3, None) \<and>
   select_result env_interrupted = - 1 \<and> select_errno env_interrupted = EINTR \<and>
   check_signals env_interrupted = Some (KeyboardInterrupt, Builtin) \<and>
   get_events env_interrupted [PyInt 3, PyNone] =
     ([Select 4 None], Some (Inl (Raise KeyboardInterrupt Builtin))) \<and>
   prologue env_read_fails [PyInt 3, PyNone] = Inr (3, None) \<and>
   select_result env_read_fails \<noteq> - 1 \<and> select_result env_read_fails \<noteq> 0 \<and>
   read_result env_read_fails = - 1 \<and> read_errno env_read_fails \<noteq> EINTR \<and>
   get_events env_read_fails [PyInt 3, PyNone] =
     ([Select 4 None, Read 3 4096], Some (Inl (Raise IOError (Errno 5))))"
proof -
  have w: "select_result env_wait_fails = - 1" "select_errno env_wait_fails \<noteq> EINTR"
    by (simp_all add: env_wait_fails_def EINTR_def)
  have i: "select_result env_interrupted = - 1" "select_errno env_interrupted = EINTR"
    "check_signals env_interrupted = Some (KeyboardInterrupt, Builtin)"
    by (simp_all add: env_interrupted_def EINTR_def)
  have r: "select_result env_read_fails \<noteq> - 1" "select_result env_read_fails \<noteq> 0"
    "read_result env_read_fails = - 1" "read_errno env_read_fails \<noteq> EINTR"
    by (simp_all add: env_read_fails_def EINTR_def)
  have 1: "get_events env_wait_fails [PyInt 3, PyNone] =
     ([Select 4 None], Some (Inl (Raise IOError (Errno 22))))"
    using wait_or_read_failure_raises [OF prologue_sample_None, of env_wait_fails] w
    by (simp add: env_wait_fails_def)
  have 2: "get_events env_interrupted [PyInt 3, PyNone] =
     ([Select 4 None], Some (Inl (Raise KeyboardInterrupt Builtin)))"
    using wait_or_read_failure_raises
      [OF prologue_sample_None, of env_interrupted KeyboardInterrupt Builtin] i
    by simp
  have 3: "get_events env_read_fails [PyInt 3, PyNone] =
     ([Select 4 None, Read 3 4096], Some (Inl (Raise IOError (Errno 5))))"
    using wait_or_read_failure_raises [OF prologue_sample_None, of env_read_fails] r
    by (simp add: env_read_fails_def BUF_LENGTH_def)
  from w i r 1 2 3 show ?thesis
    by (simp add: prologue_sample_None)
qed

text \<open>
  C7 as stated asks for the \<open>IOError\<close> of the \<open>errno\<close> whenever the wait fails. A wait that
  Ctrl-C interrupts fails with \<open>EINTR\<close>, and the call raises \<open>KeyboardInterrupt\<close>.
\<close>

theorem interrupted_wait_counterexample:
  "select_result env_interrupted = - 1 \<and> select_errno env_interrupted = EINTR \<and>
   get_events env_interrupted [PyInt 3, PyNone] =
     ([Select 4 None], Some (Inl (Raise KeyboardInterrupt Builtin))) \<and>
   raised_class (snd (get_events env_interrupted [PyInt 3, PyNone])) \<noteq> Some IOError"
  by (simp add: get_events_after_prologue [OF prologue_sample_None] after_select_def
      env_interrupted_def PyErr_SetFromErrno_def EINTR_def)




lemma buffer_encoded:
  assumes "read_bytes env = encode_all rs" and "length (read_bytes env) \<le> BUF_LENGTH"
  shows "buffer env =
           [] @ encode_all rs @ map (stack_bytes env) [length (encode_all rs)..<BUF_LENGTH]"
  using buffer_append [OF assms(2)] assms(1) by simp

lemma length_encode_all_pos:
  "rs \<noteq> [] \<Longrightarrow> 0 < length (encode_all rs)"
  by (cases rs) (simp_all add: encode_all_def length_encode_record EVENT_SIZE_def)

lemma after_select_encoded:
  assumes "select_result env \<noteq> - 1" and "select_result env \<noteq> 0"
    and "read_result env = int (length (read_bytes env))"
    and "read_bytes env = encode_all rs" and "rs \<noteq> []"
    and "\<forall>r\<in>set rs. well_formed r"
    and "length (read_bytes env) \<le> BUF_LENGTH"
    and "\<forall>k<length rs. append_ok env k"
  shows "after_select env fd = ([Read fd BUF_LENGTH], Some (Inr (map decoded rs)))"
proof -
  have pos: "0 < read_result env"
    using assms(3,4,5) length_encode_all_pos [of rs] by simp
  have "decode_loop (append_ok env)
          ([] @ encode_all rs @ map (stack_bytes env) [length (encode_all rs)..<BUF_LENGTH])
          (int (length ([] :: byte list) + length (encode_all rs))) (length ([] :: byte list)) [] =
        Some (Inr ([] @ map decoded rs))"
    using assms(6,8) by (intro decode_loop_encode) simp_all
  then have "decode_loop (append_ok env) (buffer env) (read_result env) 0 [] =
               Some (Inr (map decoded rs))"
    using assms(3,4) buffer_encoded [OF assms(4,7)] by simp
  with pos assms(1,2) show ?thesis
    by (simp add: after_select_def)
qed

lemma well_formed_samples: "well_formed rec_create" "well_formed rec_high"
  by (simp_all add: well_formed_def rec_create_def rec_high_def)

lemma decoded_samples:
  "decoded rec_create = (1, 256, 0, [97, 98])"
  "decoded rec_high = (2, - 2147483648, - 2147483648, [])"
  by (simp_all add: decoded_def as_int_def rec_create_def rec_high_def)

lemma length_encode_samples: "length (encode_all [rec_create, rec_high]) = 48"
  by (simp add: encode_all_def length_encode_record EVENT_SIZE_def rec_create_def rec_high_def)

section \<open>The default mask of \<open>add_watch\<close>\<close>

lemma convert_i_all_events: "convert_i (PyInt (uint IN_ALL_EVENTS)) = Inr 4095"
  by (simp add: IN_ALL_EVENTS_def)

text \<open>
  C8: \<open>add_watch\<close> with two arguments does what \<open>add_watch\<close> does with the third
  argument \<open>IN_ALL_EVENTS\<close>; when the two arguments convert, the watch is registered with
  the mask \<open>IN_ALL_EVENTS\<close>.
\<close>

theorem add_watch_default_mask:
  "add_watch env [a, b] = add_watch env [a, b, PyInt (uint IN_ALL_EVENTS)] \<and>
   (convert_i a = Inr fd \<and> convert_s b = Inr path \<longrightarrow>
      fst (add_watch env [a, b]) = [Inotify_add_watch fd path IN_ALL_EVENTS])"
proof -
  have "parse_add_watch IN_ALL_EVENTS [a, b, PyInt (uint IN_ALL_EVENTS)] =
          parse_add_watch IN_ALL_EVENTS [a, b]"
    by (simp add: convert_i_all_events split: sum.splits) (simp add: IN_ALL_EVENTS_def)
  then show ?thesis
    by (auto simp: add_watch_def)
qed

theorem add_watch_default_mask_witness:
  "convert_i (PyInt 3) = Inr 3 \<and> convert_s (PyStr [47, 116, 109, 112]) = Inr [47, 116, 109, 112] \<and>
   add_watch \<lparr>add_watch_result = 1, add_watch_errno = 0, add_watch_signal = None\<rparr> [PyInt 3, PyStr [47, 116, 109, 112]] =
     ([Inotify_add_watch 3 [47, 116, 109, 112] 4095], Inr 1) \<and>
   add_watch \<lparr>add_watch_result = 1, add_watch_errno = 0, add_watch_signal = None\<rparr>
       [PyInt 3, PyStr [47, 116, 109, 112], PyInt 4095] =
     ([Inotify_add_watch 3 [47, 116, 109, 112] 4095], Inr 1)"
proof -
  let ?env = "\<lparr>add_watch_result = 1, add_watch_errno = 0, add_watch_signal = None\<rparr>"
  let ?p = "[47, 116, 109, 112] :: byte list"
  have c: "convert_i (PyInt 3) = Inr 3" "convert_s (PyStr ?p) = Inr ?p"
    by simp_all
  note t = add_watch_default_mask [of ?env "PyInt 3" "PyStr ?p" 3 ?p]
  have e: "add_watch ?env [PyInt 3, PyStr ?p] = add_watch ?env [PyInt 3, PyStr ?p, PyInt 4095]"
    using t [THEN conjunct1] by (simp add: IN_ALL_EVENTS_def)
  have f: "fst (add_watch ?env [PyInt 3, PyStr ?p]) = [Inotify_add_watch 3 ?p 4095]"
    using t [THEN conjunct2, THEN mp, OF conjI [OF c]] by (simp add: IN_ALL_EVENTS_def)
  have "snd (add_watch ?env [PyInt 3, PyStr ?p]) = Inr 1"
    by (simp add: add_watch_def)
  with f have g: "add_watch ?env [PyInt 3, PyStr ?p] = ([Inotify_add_watch 3 ?p 4095], Inr 1)"
    by (simp add: prod_eq_iff)
  from g e have "add_watch ?env [PyInt 3, PyStr ?p, PyInt 4095] =
      ([Inotify_add_watch 3 ?p 4095], Inr 1)"
    by simp
  with g c show ?thesis by simp
qed

section \<open>What the decode loop returns\<close>

text \<open>
  An induction rule for the loop: a property of the cursor, the list and the outcome holds
  of every run when it holds where the loop stops, where a pass fails, and is kept by a
  pass that goes on.
\<close>

lemma decode_loop_cases:
  assumes stop: "\<And>p evs. \<not> int p < l \<Longrightarrow> P p evs (Some (Inr evs))"
    and undef: "\<And>p evs f. int p < l \<Longrightarrow> build_event buf p = Inl f \<Longrightarrow> P p evs (Some (Inl f))"
    and nomem: "\<And>p evs e len. int p < l \<Longrightarrow> build_event buf p = Inr (e, len) \<Longrightarrow>
       \<not> ok (length evs) \<Longrightarrow> P p evs (Some (Inl (Raise MemoryError Builtin)))"
    and leave: "\<And>p evs e len. int p < l \<Longrightarrow> build_event buf p = Inr (e, len) \<Longrightarrow>
       ok (length evs) \<Longrightarrow> length buf < p + EVENT_SIZE + len \<Longrightarrow>
       P p evs (Some (Inl Undefined))"
    and step: "\<And>p evs e len. int p < l \<Longrightarrow> build_event buf p = Inr (e, len) \<Longrightarrow>
       ok (length evs) \<Longrightarrow> p + EVENT_SIZE + len \<le> length buf \<Longrightarrow>
       P (p + EVENT_SIZE + len) (evs @ [e])
         (decode_loop ok buf l (p + EVENT_SIZE + len) (evs @ [e])) \<Longrightarrow>
       P p evs (decode_loop ok buf l (p + EVENT_SIZE + len) (evs @ [e]))"
  shows "P p evs (decode_loop ok buf l p evs)"
proof (induction "nat (l - int p)" arbitrary: p evs rule: less_induct)
  case less
  show ?case
  proof (cases "int p < l")
    case False
    then have "decode_loop ok buf l p evs = Some (Inr evs)"
      by (subst decode_loop.simps) simp
    with stop [OF False] show ?thesis by simp
  next
    case True
    show ?thesis
    proof (cases "build_event buf p")
      case (Inl f)
      with True have "decode_loop ok buf l p evs = Some (Inl f)"
        by (subst decode_loop.simps) simp
      with undef [OF True Inl] show ?thesis by simp
    next
      case (Inr a)
      obtain e len where a: "build_event buf p = Inr (e, len)"
        using Inr by (cases a) simp
      show ?thesis
      proof (cases "ok (length evs)")
        case False
        with True a have "decode_loop ok buf l p evs = Some (Inl (Raise MemoryError Builtin))"
          by (subst decode_loop.simps) simp
        with nomem [OF True a False] show ?thesis by simp
      next
        case okT: True
        show ?thesis
        proof (cases "p + EVENT_SIZE + len \<le> length buf")
          case False
          then have far: "length buf < p + EVENT_SIZE + len"
            by simp
          from leave [OF True a okT far]
            decode_loop_leave [where ok = ok and events = evs, OF True a okT far]
          show ?thesis by simp
        next
          case inside: True
          have "nat (l - int (p + EVENT_SIZE + len)) < nat (l - int p)"
            using True by (simp add: EVENT_SIZE_def)
          from less [OF this]
          have "P (p + EVENT_SIZE + len) (evs @ [e])
                  (decode_loop ok buf l (p + EVENT_SIZE + len) (evs @ [e]))" .
          from step [OF True a okT inside this]
            decode_loop_step [where ok = ok and events = evs, OF True a okT inside]
          show ?thesis by simp
        qed
      qed
    qed
  qed
qed

lemma decode_loop_prefix:
  "decode_loop ok buf l p evs = Some (Inr res) \<Longrightarrow> \<exists>tl. res = evs @ tl"
  by (rule decode_loop_cases [where P = "\<lambda>p evs r. r = Some (Inr res) \<longrightarrow> (\<exists>tl. res = evs @ tl)", THEN mp])
    auto

lemma build_event_fault: "build_event buf p = Inl f \<Longrightarrow> f = Undefined"
  by (auto simp: build_event_def split: option.splits if_splits)

lemma decode_loop_faults:
  "decode_loop ok buf l p evs = Some (Inl f) \<Longrightarrow> f = Undefined \<or> f = Raise MemoryError Builtin"
  by (rule decode_loop_cases [where P = "\<lambda>p evs r. r = Some (Inl f) \<longrightarrow> f = Undefined \<or> f = Raise MemoryError Builtin", THEN mp])
    (auto dest: build_event_fault)

lemma decode_loop_first:
  assumes "int p < l" and "build_event buf p = Inr (e, len)"
    and "decode_loop ok buf l p evs = Some (Inr res)"
  shows "length evs < length res \<and> res ! length evs = e"
proof (cases "ok (length evs)")
  case True
  have inside: "p + EVENT_SIZE + len \<le> length buf"
  proof (rule ccontr)
    assume "\<not> p + EVENT_SIZE + len \<le> length buf"
    then have "length buf < p + EVENT_SIZE + len"
      by simp
    from decode_loop_leave [where ok = ok and events = evs, OF assms(1,2) True this] assms(3)
    show False by simp
  qed
  from decode_loop_step [where ok = ok and events = evs, OF assms(1,2) True inside] assms(3)
  have "decode_loop ok buf l (p + EVENT_SIZE + len) (evs @ [e]) = Some (Inr res)" by simp
  from decode_loop_prefix [OF this] obtain tl where "res = (evs @ [e]) @ tl" ..
  then show ?thesis by (simp add: nth_append)
next
  case False
  with assms(1,2) have "decode_loop ok buf l p evs = Some (Inl (Raise MemoryError Builtin))"
    by (subst decode_loop.simps) simp
  with assms(3) show ?thesis by simp
qed

lemma decode_encoded:
  assumes "\<forall>r\<in>set rs. well_formed r" and "\<forall>k<length rs. ok k"
  shows "decode_loop ok (encode_all rs @ rest) (int (length (encode_all rs))) 0 [] =
           Some (Inr (map decoded rs))"
proof -
  have "decode_loop ok ([] @ encode_all rs @ rest)
          (int (length ([] :: byte list) + length (encode_all rs))) (length ([] :: byte list)) [] =
        Some (Inr ([] @ map decoded rs))"
    using assms by (intro decode_loop_encode) simp_all
  then show ?thesis by simp
qed

text \<open>
  C3, as amended: for every sequence of well-formed records, laid out back to back, the
  decoder run on exactly their bytes returns one event for each record, in the same
  order: the watch descriptor and the name of the record, and its mask and cookie read as
  C \<open>int\<close>s, which are the mask and the cookie themselves when these are below \<open>2 ^ 31\<close>.
  A record whose \<open>name_length\<close> is 0 has the empty name.
\<close>

theorem decode_encoded_roundtrip:
  assumes "\<forall>r\<in>set rs. well_formed r" and "\<forall>k<length rs. ok k"
  shows "decode_loop ok (encode_all rs) (int (length (encode_all rs))) 0 [] =
           Some (Inr (map (\<lambda>r. (w_wd r, as_int (w_mask r), as_int (w_cookie r), w_name r)) rs)) \<and>
         length (map (\<lambda>r. (w_wd r, as_int (w_mask r), as_int (w_cookie r), w_name r)) rs) =
           length rs \<and>
         (\<forall>r\<in>set rs. w_mask r < 2 ^ 31 \<longrightarrow> as_int (w_mask r) = w_mask r) \<and>
         (\<forall>r\<in>set rs. w_cookie r < 2 ^ 31 \<longrightarrow> as_int (w_cookie r) = w_cookie r) \<and>
         (\<forall>r\<in>set rs. length (w_name r) + w_pad r = 0 \<longrightarrow> w_name r = [])"
proof -
  have "decoded = (\<lambda>r. (w_wd r, as_int (w_mask r), as_int (w_cookie r), w_name r))"
    by (simp add: fun_eq_iff decoded_def)
  with decode_encoded [OF assms, of "[]"] show ?thesis
    by (simp add: as_int_def)
qed

theorem decode_encoded_roundtrip_witness:
  "well_formed rec_create \<and> well_formed rec_high \<and>
   append_succeeds 0 \<and> append_succeeds 1 \<and>
   length (encode_all [rec_create, rec_high]) = 48 \<and>
   decode_loop append_succeeds (encode_all [rec_create, rec_high]) 48 0 [] =
     Some (Inr [(1, 256, 0, [97, 98]), (2, - 2147483648, - 2147483648, [])])"
proof -
  have w: "\<forall>r\<in>set [rec_create, rec_high]. well_formed r"
    by (simp add: well_formed_samples)
  have a: "\<forall>k<length [rec_create, rec_high]. append_succeeds k"
    by (simp add: append_succeeds_def)
  have m: "map (\<lambda>r. (w_wd r, as_int (w_mask r), as_int (w_cookie r), w_name r))
             [rec_create, rec_high] =
           [(1, 256, 0, [97, 98]), (2, - 2147483648, - 2147483648, [])]"
    by (simp add: as_int_def rec_create_def rec_high_def)
  from decode_encoded_roundtrip [OF w a, THEN conjunct1]
  have "decode_loop append_succeeds (encode_all [rec_create, rec_high]) 48 0 [] =
     Some (Inr [(1, 256, 0, [97, 98]), (2, - 2147483648, - 2147483648, [])])"
    by (simp only: m length_encode_samples) simp
  then show ?thesis
    by (simp add: well_formed_samples append_succeeds_def length_encode_samples)
qed

text \<open>
  C3 as stated asks for fields equal to the encoded ones. A record whose mask and cookie
  are \<open>2 ^ 31\<close> comes back with the mask and the cookie \<open>- (2 ^ 31)\<close>.
\<close>

theorem roundtrip_high_bit_counterexample:
  "well_formed rec_high \<and> w_mask rec_high = 2147483648 \<and> w_cookie rec_high = 2147483648 \<and>
   decode_loop append_succeeds (encode_all [rec_high]) (int (length (encode_all [rec_high]))) 0 [] =
     Some (Inr [(2, - 2147483648, - 2147483648, [])]) \<and>
   [(2, - 2147483648, - 2147483648, [])] \<noteq>
     [(w_wd rec_high, w_mask rec_high, w_cookie rec_high, w_name rec_high)]"
proof -
  have "decode_loop append_succeeds (encode_all [rec_high] @ [])
          (int (length (encode_all [rec_high]))) 0 [] = Some (Inr (map decoded [rec_high]))"
    by (rule decode_encoded) (simp_all add: well_formed_samples append_succeeds_def)
  then show ?thesis
    by (simp add: decoded_samples well_formed_samples) (simp add: rec_high_def)
qed

lemma event_at_short:
  "event_at (buffer env_short) 0 = Some \<lparr>ie_wd = 1, ie_mask = 2, ie_cookie = 0, ie_len = 0\<rparr>"
  by (simp add: event_at_def length_buffer rd32_def buffer_nth BUF_LENGTH_def EVENT_SIZE_def
      le32_def env_short_def zero_stack_def)

lemma event_at_short_stale:
  "event_at (buffer env_short_stale) 0 =
     Some \<lparr>ie_wd = 1, ie_mask = 2, ie_cookie = 1, ie_len = 0\<rparr>"
  by (simp add: event_at_def length_buffer rd32_def buffer_nth BUF_LENGTH_def EVENT_SIZE_def
      le32_def env_short_stale_def stale_stack_def)

lemma decode_short:
  "decode_loop append_succeeds (buffer env_short) 8 0 [] = Some (Inr [(1, 2, 0, [])])"
proof -
  have b: "build_event (buffer env_short) 0 = Inr ((1, 2, 0, []), 0)"
    by (simp add: build_event_def event_at_short)
  have "decode_loop append_succeeds (buffer env_short) 8 0 [] =
          decode_loop append_succeeds (buffer env_short) 8 (0 + EVENT_SIZE + 0) ([] @ [(1, 2, 0, [])])"
    by (rule decode_loop_step [OF _ b])
      (simp_all add: append_succeeds_def length_buffer BUF_LENGTH_def EVENT_SIZE_def)
  also have "\<dots> = Some (Inr [(1, 2, 0, [])])"
    by (subst decode_loop.simps) (simp add: EVENT_SIZE_def)
  finally show ?thesis .
qed

lemma decode_short_stale:
  "decode_loop append_succeeds (buffer env_short_stale) 8 0 [] = Some (Inr [(1, 2, 1, [])])"
proof -
  have b: "build_event (buffer env_short_stale) 0 = Inr ((1, 2, 1, []), 0)"
    by (simp add: build_event_def event_at_short_stale)
  have "decode_loop append_succeeds (buffer env_short_stale) 8 0 [] =
          decode_loop append_succeeds (buffer env_short_stale) 8 (0 + EVENT_SIZE + 0)
            ([] @ [(1, 2, 1, [])])"
    by (rule decode_loop_step [OF _ b])
      (simp_all add: append_succeeds_def length_buffer BUF_LENGTH_def EVENT_SIZE_def)
  also have "\<dots> = Some (Inr [(1, 2, 1, [])])"
    by (subst decode_loop.simps) (simp add: EVENT_SIZE_def)
  finally show ?thesis .
qed

text \<open>
  C1 as stated asks that the decoder reads no byte past the length that \<open>read\<close>
  returned, and that a read that stops inside a record is refused. A read of 8 bytes,
  half of the fixed part of a record, is decoded into one event, and the cookie of that
  event is what cells 8 to 11 of the array held before the call.
\<close>

theorem truncated_read_counterexample:
  "read_result env_short = 8 \<and> read_bytes env_short = [1, 0, 0, 0, 2, 0, 0, 0] \<and>
   read_result env_short_stale = 8 \<and> read_bytes env_short_stale = [1, 0, 0, 0, 2, 0, 0, 0] \<and>
   get_events env_short [PyInt 3, PyNone] =
     ([Select 4 None, Read 3 4096], Some (Inr [(1, 2, 0, [])])) \<and>
   get_events env_short_stale [PyInt 3, PyNone] =
     ([Select 4 None, Read 3 4096], Some (Inr [(1, 2, 1, [])]))"
proof -
  have "after_select env_short 3 = ([Read 3 4096], Some (Inr [(1, 2, 0, [])]))"
    using decode_short by (simp add: after_select_def env_short_def BUF_LENGTH_def)
  moreover have "after_select env_short_stale 3 = ([Read 3 4096], Some (Inr [(1, 2, 1, [])]))"
    using decode_short_stale by (simp add: after_select_def env_short_stale_def BUF_LENGTH_def)
  ultimately show ?thesis
    by (simp add: get_events_after_prologue [OF prologue_sample_None])
      (simp add: env_short_def env_short_stale_def)
qed

lemma decode_in_bounds:
  assumes "\<forall>r\<in>set rs. well_formed r" and "\<forall>k<length rs. ok k"
  shows "decode_loop ok (encode_all rs @ rest) (int (length (encode_all rs))) 0 [] =
           decode_loop ok (encode_all rs) (int (length (encode_all rs))) 0 []"
  using decode_encoded [OF assms, of rest] decode_encoded [OF assms, of "[]"] by simp

text \<open>
  C1, as amended: when the first \<open>length\<close> bytes of the array are complete well-formed
  records, the decoder reads no byte past them: its outcome is the same whatever
  follows them, also when nothing does and any further read would leave the array. The
  decoder has no error of its own: it fails only where a read leaves the array or where
  the interpreter has no memory left, and a record whose fixed part starts before
  \<open>length\<close> is decoded from the bytes of the array, wherever the record ends.
\<close>

theorem decode_within_length:
  assumes "\<forall>r\<in>set rs. well_formed r" and "\<forall>k<length rs. ok k"
  shows "decode_loop ok (encode_all rs @ rest) (int (length (encode_all rs))) 0 [] =
           decode_loop ok (encode_all rs) (int (length (encode_all rs))) 0 [] \<and>
         decode_loop ok (encode_all rs) (int (length (encode_all rs))) 0 [] \<noteq>
           Some (Inl Undefined) \<and>
         (decode_loop ok' buf l p evs = Some (Inl f) \<longrightarrow>
            f = Undefined \<or> f = Raise MemoryError Builtin) \<and>
         (int p < l \<and> build_event buf p = Inr (e, len) \<and>
          decode_loop ok' buf l p evs = Some (Inr res) \<longrightarrow>
            length evs < length res \<and> res ! length evs = e)"
proof -
  have "decode_loop ok (encode_all rs) (int (length (encode_all rs))) 0 [] \<noteq>
          Some (Inl Undefined)"
    using decode_encoded [OF assms, of "[]"] by simp
  with decode_in_bounds [OF assms] decode_loop_faults [of ok' buf l p evs f]
    decode_loop_first [of p l buf e len ok' evs res]
  show ?thesis by blast
qed

lemma decode_eight_bytes:
  "decode_loop append_succeeds [1, 0, 0, 0, 2, 0, 0, 0] 8 0 [] = Some (Inl Undefined)"
  by (subst decode_loop.simps) (simp add: build_event_def event_at_def EVENT_SIZE_def)

lemma build_event_short: "build_event (buffer env_short) 0 = Inr ((1, 2, 0, []), 0)"
  by (simp add: build_event_def event_at_short)

theorem decode_within_length_witness:
  "well_formed rec_create \<and> well_formed rec_high \<and>
   append_succeeds 0 \<and> append_succeeds 1 \<and>
   decode_loop append_succeeds (encode_all [rec_create, rec_high] @ [1, 1, 1]) 48 0 [] =
     decode_loop append_succeeds (encode_all [rec_create, rec_high]) 48 0 [] \<and>
   decode_loop append_succeeds (encode_all [rec_create, rec_high]) 48 0 [] \<noteq>
     Some (Inl Undefined) \<and>
   decode_loop append_succeeds [1, 0, 0, 0, 2, 0, 0, 0] 8 0 [] = Some (Inl Undefined) \<and>
   (0 :: int) < 8 \<and> build_event (buffer env_short) 0 = Inr ((1, 2, 0, []), 0) \<and>
   decode_loop append_succeeds (buffer env_short) 8 0 [] = Some (Inr [(1, 2, 0, [])]) \<and>
   length ([] :: event list) < length [(1, 2, 0, []) :: event] \<and>
   [(1, 2, 0, []) :: event] ! length ([] :: event list) = (1, 2, 0, [])"
proof -
  have w: "\<forall>r\<in>set [rec_create, rec_high]. well_formed r"
    by (simp add: well_formed_samples)
  have a: "\<forall>k<length [rec_create, rec_high]. append_succeeds k"
    by (simp add: append_succeeds_def)
  note t = decode_within_length [OF w a, of "[1, 1, 1]" append_succeeds "buffer env_short" 8 0
      "[]" Undefined "(1, 2, 0, [])" 0 "[(1, 2, 0, [])]"]
  from t have "decode_loop append_succeeds (encode_all [rec_create, rec_high] @ [1, 1, 1]) 48 0 [] =
     decode_loop append_succeeds (encode_all [rec_create, rec_high]) 48 0 [] \<and>
   decode_loop append_succeeds (encode_all [rec_create, rec_high]) 48 0 [] \<noteq>
     Some (Inl Undefined)"
    by (simp only: length_encode_samples) simp
  moreover from t build_event_short decode_short
  have "length ([] :: event list) < length [(1, 2, 0, []) :: event] \<and>
   [(1, 2, 0, []) :: event] ! length ([] :: event list) = (1, 2, 0, [])"
    by simp
  ultimately show ?thesis
    using well_formed_samples decode_eight_bytes build_event_short decode_short
    by (simp add: append_succeeds_def)
qed

section \<open>Every event and its record\<close>

text \<open>
  The list that the loop returns, event by event: the event of index \<open>i\<close> is built from
  the record under the cursor after \<open>i\<close> passes, that cursor is below the length, each
  pass leaves the cursor in the array or at its end, and the cursor after the last pass is
  not below the length.
\<close>

lemma decode_loop_records:
  assumes "decode_loop ok buf l p evs = Some (Inr res)"
  shows "\<exists>tl. res = evs @ tl \<and>
       (\<forall>i<length tl. int (cursor_after buf p i) < l \<and>
          (\<exists>len. build_event buf (cursor_after buf p i) = Inr (tl ! i, len)) \<and>
          cursor_after buf p (Suc i) \<le> length buf) \<and>
       \<not> int (cursor_after buf p (length tl)) < l"
proof -
  define P where "P = (\<lambda>p evs (r :: (fault + event list) option). r = Some (Inr res) \<longrightarrow>
     (\<exists>tl. res = evs @ tl \<and>
       (\<forall>i<length tl. int (cursor_after buf p i) < l \<and>
          (\<exists>len. build_event buf (cursor_after buf p i) = Inr (tl ! i, len)) \<and>
          cursor_after buf p (Suc i) \<le> length buf) \<and>
       \<not> int (cursor_after buf p (length tl)) < l))"
  have "P p evs (decode_loop ok buf l p evs)"
  proof (rule decode_loop_cases [where P = P and l = l and buf = buf and ok = ok], goal_cases)
  case (1 p evs)
  then show ?case by (simp add: P_def)
next
  case (2 p evs f)
  then show ?case by (simp add: P_def)
next
  case (3 p evs e len)
  then show ?case by (simp add: P_def)
next
  case (4 p evs e len)
  then show ?case by (simp add: P_def)
next
  case (5 p evs e len)
  let ?q = "p + EVENT_SIZE + len"
  have q: "?q = p + EVENT_SIZE + unat (rd32 buf (p + 12))"
    using build_event_len_field [OF 5(2)] by simp
  show ?case
    unfolding P_def
  proof
    assume r: "decode_loop ok buf l ?q (evs @ [e]) = Some (Inr res)"
    with 5(5) [unfolded P_def] obtain tl where tl: "res = (evs @ [e]) @ tl"
      and each: "\<forall>i<length tl. int (cursor_after buf ?q i) < l \<and>
          (\<exists>len. build_event buf (cursor_after buf ?q i) = Inr (tl ! i, len)) \<and>
          cursor_after buf ?q (Suc i) \<le> length buf"
      and last: "\<not> int (cursor_after buf ?q (length tl)) < l"
      by blast
    have shift: "cursor_after buf p (Suc i) = cursor_after buf ?q i" for i
      unfolding q by (rule cursor_after_shift)
    have "int (cursor_after buf p i) < l \<and>
          (\<exists>len. build_event buf (cursor_after buf p i) = Inr ((e # tl) ! i, len)) \<and>
          cursor_after buf p (Suc i) \<le> length buf"
      if "i < length (e # tl)" for i
    proof (cases i)
      case 0
      with 5(1,2,4) q show ?thesis by auto
    next
      case (Suc j)
      with that each have "int (cursor_after buf ?q j) < l \<and>
          (\<exists>len. build_event buf (cursor_after buf ?q j) = Inr (tl ! j, len)) \<and>
          cursor_after buf ?q (Suc j) \<le> length buf"
        by simp
      then show ?thesis
        unfolding Suc shift by simp
    qed
    moreover have "\<not> int (cursor_after buf p (length (e # tl))) < l"
      unfolding length_Cons shift by (rule last)
    moreover have "res = evs @ e # tl"
      using tl by simp
    ultimately show "\<exists>tl. res = evs @ tl \<and>
       (\<forall>i<length tl. int (cursor_after buf p i) < l \<and>
          (\<exists>len. build_event buf (cursor_after buf p i) = Inr (tl ! i, len)) \<and>
          cursor_after buf p (Suc i) \<le> length buf) \<and>
       \<not> int (cursor_after buf p (length tl)) < l"
      by blast
  qed
qed
  with assms show ?thesis
    unfolding P_def by blast
qed

text \<open>
  The loop ends in \<open>Undefined\<close> only where a pass reads outside the array or moves the
  cursor further than its end.
\<close>

lemma decode_loop_undefined:
  assumes "decode_loop ok buf l p evs = Some (Inl Undefined)"
  shows "\<exists>i. int (cursor_after buf p i) < l \<and>
       (build_event buf (cursor_after buf p i) = Inl Undefined \<or>
        length buf < cursor_after buf p (Suc i))"
proof -
  define P where "P = (\<lambda>p (evs :: event list) r. r = Some (Inl Undefined :: fault + event list) \<longrightarrow>
     (\<exists>i. int (cursor_after buf p i) < l \<and>
       (build_event buf (cursor_after buf p i) = Inl Undefined \<or>
        length buf < cursor_after buf p (Suc i))))"
  have "P p evs (decode_loop ok buf l p evs)"
  proof (rule decode_loop_cases [where P = P and l = l and buf = buf and ok = ok], goal_cases)
  case (1 p evs)
  then show ?case by (simp add: P_def)
next
  case (2 p evs f)
  show ?case
    unfolding P_def
  proof
    assume "Some (Inl f) = Some (Inl Undefined)"
    with 2 have "int (cursor_after buf p 0) < l \<and> build_event buf (cursor_after buf p 0) = Inl Undefined"
      by simp
    then show "\<exists>i. int (cursor_after buf p i) < l \<and>
       (build_event buf (cursor_after buf p i) = Inl Undefined \<or>
        length buf < cursor_after buf p (Suc i))"
      by blast
  qed
next
  case (3 p evs e len)
  then show ?case by (simp add: P_def)
next
  case (4 p evs e len)
  have "int (cursor_after buf p 0) < l \<and> length buf < cursor_after buf p (Suc 0)"
    using 4(1,4) build_event_len_field [OF 4(2)] by simp
  then show ?case unfolding P_def by blast
next
  case (5 p evs e len)
  let ?q = "p + EVENT_SIZE + len"
  have shift: "cursor_after buf p (Suc i) = cursor_after buf ?q i" for i
    using build_event_len_field [OF 5(2)] cursor_after_shift [of buf p i] by simp
  show ?case
    unfolding P_def
  proof
    assume "decode_loop ok buf l ?q (evs @ [e]) = Some (Inl Undefined)"
    with 5(5) [unfolded P_def] obtain i where "int (cursor_after buf ?q i) < l \<and>
       (build_event buf (cursor_after buf ?q i) = Inl Undefined \<or>
        length buf < cursor_after buf ?q (Suc i))"
      by blast
    then have "int (cursor_after buf p (Suc i)) < l \<and>
       (build_event buf (cursor_after buf p (Suc i)) = Inl Undefined \<or>
        length buf < cursor_after buf p (Suc (Suc i)))"
      by (simp only: shift)
    then show "\<exists>i. int (cursor_after buf p i) < l \<and>
       (build_event buf (cursor_after buf p i) = Inl Undefined \<or>
        length buf < cursor_after buf p (Suc i))"
      by blast
  qed
qed
  with assms show ?thesis
    unfolding P_def by blast
qed

lemma decode_loop_count:
  assumes "decode_loop ok buf l p evs = Some (Inr res)"
  shows "\<exists>n. length res = length evs + n \<and> EVENT_SIZE * n \<le> length buf - p \<and>
           (\<forall>i<n. int (cursor_after buf p i) < l) \<and> \<not> int (cursor_after buf p n) < l"
proof -
  from decode_loop_records [OF assms] obtain tl where tl: "res = evs @ tl"
    and each: "\<forall>i<length tl. int (cursor_after buf p i) < l \<and>
          (\<exists>len. build_event buf (cursor_after buf p i) = Inr (tl ! i, len)) \<and>
          cursor_after buf p (Suc i) \<le> length buf"
    and last: "\<not> int (cursor_after buf p (length tl)) < l"
    by blast
  have "EVENT_SIZE * length tl \<le> length buf - p"
  proof (cases "length tl")
    case 0
    then show ?thesis by simp
  next
    case (Suc k)
    with each have "cursor_after buf p (Suc k) \<le> length buf"
      by simp
    with cursor_after_ge [of p "Suc k" buf] Suc show ?thesis
      by simp
  qed
  with tl each last show ?thesis
    by auto
qed

lemma sint_cases:
  "sint (w :: uint32_t) = (if uint w < 2 ^ 31 then uint w else uint w - 2 ^ 32)"
proof -
  have "uint w < 2 ^ 32"
    using uint_bounded [of w] by simp
  then have "sint (word_of_int (uint w) :: uint32_t) = as_int (uint w)"
    by (intro sint_as_int) simp_all
  then show ?thesis
    by (simp add: as_int_def)
qed

lemma oneshot_bit: "w AND IN_ONESHOT \<noteq> 0 \<longleftrightarrow> sint (w :: uint32_t) < 0"
proof -
  have "w AND IN_ONESHOT \<noteq> 0 \<longleftrightarrow> bit w 31"
    using and_exp_eq_0_iff_not_bit [of w 31] by (simp add: IN_ONESHOT_def)
  also have "\<dots> \<longleftrightarrow> sint w < 0"
    using bit_last_iff [of w] by simp
  finally show ?thesis .
qed

lemma build_event_fields:
  assumes "build_event buf q = Inr (ev, len)"
  shows "\<exists>h name. event_at buf q = Some h \<and>
           ev = (sint (ie_wd h), sint (ie_mask h), sint (ie_cookie h), name) \<and>
           (if ie_len h = 0 then name = [] else name_at buf q = Some name)"
  using assms by (auto simp: build_event_def split: option.splits if_splits)

lemma decoded_signed:
  assumes "well_formed r"
  shows "fst (snd (decoded r)) = (if w_mask r < 2 ^ 31 then w_mask r else w_mask r - 2 ^ 32)"
    and "fst (snd (snd (decoded r))) =
           (if w_cookie r < 2 ^ 31 then w_cookie r else w_cookie r - 2 ^ 32)"
    and "2 ^ 31 \<le> w_mask r \<longrightarrow> fst (snd (decoded r)) < 0"
    and "2 ^ 31 \<le> w_cookie r \<longrightarrow> fst (snd (snd (decoded r))) < 0"
  using assms by (simp_all add: decoded_def as_int_def well_formed_def)

text \<open>
  C10: the event of index \<open>i\<close> of the list that the decoder returns is built from the
  record under the cursor after \<open>i\<close> passes: its watch descriptor, mask and cookie are
  the three fields of that record (the 32-bit words at the cursor, 4 bytes and 8 bytes
  after it) read as signed 32-bit integers, and its name is the name of that record. So the mask and the cookie are the unsigned values when these are
  below \<open>2 ^ 31\<close> and those values minus \<open>2 ^ 32\<close> otherwise: a mask with the bit
  \<open>IN_ONESHOT\<close> and a cookie of \<open>2 ^ 31\<close> or more come back negative. For well-formed
  records laid out back to back the decoder returns such a list, and the event of index
  \<open>j\<close> has the mask and the cookie of the record of index \<open>j\<close>, read so.
\<close>

theorem mask_cookie_signed:
  "(decode_loop ok buf length' 0 [] = Some (Inr res) \<and> i < length res \<longrightarrow>
      (\<exists>h name. int (cursor_after buf 0 i) < length' \<and>
         event_at buf (cursor_after buf 0 i) = Some h \<and>
         ie_wd h = rd32 buf (cursor_after buf 0 i) \<and>
         ie_mask h = rd32 buf (cursor_after buf 0 i + 4) \<and>
         ie_cookie h = rd32 buf (cursor_after buf 0 i + 8) \<and>
         res ! i = (sint (ie_wd h), sint (ie_mask h), sint (ie_cookie h), name) \<and>
         (if ie_len h = 0 then name = [] else name_at buf (cursor_after buf 0 i) = Some name) \<and>
         fst (snd (res ! i)) =
           (if uint (ie_mask h) < 2 ^ 31 then uint (ie_mask h) else uint (ie_mask h) - 2 ^ 32) \<and>
         fst (snd (snd (res ! i))) =
           (if uint (ie_cookie h) < 2 ^ 31 then uint (ie_cookie h)
            else uint (ie_cookie h) - 2 ^ 32) \<and>
         (ie_mask h AND IN_ONESHOT \<noteq> 0 \<longrightarrow> fst (snd (res ! i)) < 0) \<and>
         (2 ^ 31 \<le> uint (ie_cookie h) \<longrightarrow> fst (snd (snd (res ! i))) < 0))) \<and>
   ((\<forall>r\<in>set rs. well_formed r) \<and> (\<forall>k<length rs. ok k) \<and> j < length rs \<longrightarrow>
      (\<exists>evs. decode_loop ok (encode_all rs) (int (length (encode_all rs))) 0 [] =
           Some (Inr evs) \<and>
         length evs = length rs \<and>
         fst (snd (evs ! j)) =
           (if w_mask (rs ! j) < 2 ^ 31 then w_mask (rs ! j) else w_mask (rs ! j) - 2 ^ 32) \<and>
         fst (snd (snd (evs ! j))) =
           (if w_cookie (rs ! j) < 2 ^ 31 then w_cookie (rs ! j)
            else w_cookie (rs ! j) - 2 ^ 32) \<and>
         (2 ^ 31 \<le> w_mask (rs ! j) \<longrightarrow> fst (snd (evs ! j)) < 0) \<and>
         (2 ^ 31 \<le> w_cookie (rs ! j) \<longrightarrow> fst (snd (snd (evs ! j))) < 0)))"
proof (intro conjI impI)
  assume a: "decode_loop ok buf length' 0 [] = Some (Inr res) \<and> i < length res"
  from decode_loop_records [OF a [THEN conjunct1]] a
  obtain len where below: "int (cursor_after buf 0 i) < length'"
    and b: "build_event buf (cursor_after buf 0 i) = Inr (res ! i, len)"
    by auto
  from build_event_fields [OF b] obtain h name where
    h: "event_at buf (cursor_after buf 0 i) = Some h"
      "res ! i = (sint (ie_wd h), sint (ie_mask h), sint (ie_cookie h), name)"
      "if ie_len h = 0 then name = [] else name_at buf (cursor_after buf 0 i) = Some name"
    by blast
  have m: "fst (snd (res ! i)) = sint (ie_mask h)"
    and c: "fst (snd (snd (res ! i))) = sint (ie_cookie h)"
    by (simp_all add: h(2))
  have 1: "2 ^ 31 \<le> uint (ie_cookie h) \<longrightarrow> fst (snd (snd (res ! i))) < 0"
    using uint_bounded [of "ie_cookie h"] by (simp add: c sint_cases)
  have 2: "ie_mask h AND IN_ONESHOT \<noteq> 0 \<longrightarrow> fst (snd (res ! i)) < 0"
    by (simp add: m oneshot_bit)
  have 3: "fst (snd (res ! i)) =
      (if uint (ie_mask h) < 2 ^ 31 then uint (ie_mask h) else uint (ie_mask h) - 2 ^ 32)"
    unfolding m by (rule sint_cases)
  have 4: "fst (snd (snd (res ! i))) =
      (if uint (ie_cookie h) < 2 ^ 31 then uint (ie_cookie h) else uint (ie_cookie h) - 2 ^ 32)"
    unfolding c by (rule sint_cases)
  have 5: "ie_wd h = rd32 buf (cursor_after buf 0 i)"
    "ie_mask h = rd32 buf (cursor_after buf 0 i + 4)"
    "ie_cookie h = rd32 buf (cursor_after buf 0 i + 8)"
    using h(1) by (auto simp: event_at_def split: if_splits)
  from below h 1 2 3 4 5
  show "\<exists>h name. int (cursor_after buf 0 i) < length' \<and>
         event_at buf (cursor_after buf 0 i) = Some h \<and>
         ie_wd h = rd32 buf (cursor_after buf 0 i) \<and>
         ie_mask h = rd32 buf (cursor_after buf 0 i + 4) \<and>
         ie_cookie h = rd32 buf (cursor_after buf 0 i + 8) \<and>
         res ! i = (sint (ie_wd h), sint (ie_mask h), sint (ie_cookie h), name) \<and>
         (if ie_len h = 0 then name = [] else name_at buf (cursor_after buf 0 i) = Some name) \<and>
         fst (snd (res ! i)) =
           (if uint (ie_mask h) < 2 ^ 31 then uint (ie_mask h) else uint (ie_mask h) - 2 ^ 32) \<and>
         fst (snd (snd (res ! i))) =
           (if uint (ie_cookie h) < 2 ^ 31 then uint (ie_cookie h)
            else uint (ie_cookie h) - 2 ^ 32) \<and>
         (ie_mask h AND IN_ONESHOT \<noteq> 0 \<longrightarrow> fst (snd (res ! i)) < 0) \<and>
         (2 ^ 31 \<le> uint (ie_cookie h) \<longrightarrow> fst (snd (snd (res ! i))) < 0)"
    by blast
next
  assume a: "(\<forall>r\<in>set rs. well_formed r) \<and> (\<forall>k<length rs. ok k) \<and> j < length rs"
  then have w: "well_formed (rs ! j)" and j: "j < length rs"
    by simp_all
  have d: "decode_loop ok (encode_all rs) (int (length (encode_all rs))) 0 [] =
      Some (Inr (map decoded rs))"
    using decode_encoded [of rs ok "[]"] a by simp
  have n: "map decoded rs ! j = decoded (rs ! j)"
    using j by simp
  have "decode_loop ok (encode_all rs) (int (length (encode_all rs))) 0 [] =
           Some (Inr (map decoded rs)) \<and>
         length (map decoded rs) = length rs \<and>
         fst (snd (map decoded rs ! j)) =
           (if w_mask (rs ! j) < 2 ^ 31 then w_mask (rs ! j) else w_mask (rs ! j) - 2 ^ 32) \<and>
         fst (snd (snd (map decoded rs ! j))) =
           (if w_cookie (rs ! j) < 2 ^ 31 then w_cookie (rs ! j)
            else w_cookie (rs ! j) - 2 ^ 32) \<and>
         (2 ^ 31 \<le> w_mask (rs ! j) \<longrightarrow> fst (snd (map decoded rs ! j)) < 0) \<and>
         (2 ^ 31 \<le> w_cookie (rs ! j) \<longrightarrow> fst (snd (snd (map decoded rs ! j))) < 0)"
    unfolding n length_map using d decoded_signed [OF w] by blast
  then show "\<exists>evs. decode_loop ok (encode_all rs) (int (length (encode_all rs))) 0 [] =
           Some (Inr evs) \<and>
         length evs = length rs \<and>
         fst (snd (evs ! j)) =
           (if w_mask (rs ! j) < 2 ^ 31 then w_mask (rs ! j) else w_mask (rs ! j) - 2 ^ 32) \<and>
         fst (snd (snd (evs ! j))) =
           (if w_cookie (rs ! j) < 2 ^ 31 then w_cookie (rs ! j)
            else w_cookie (rs ! j) - 2 ^ 32) \<and>
         (2 ^ 31 \<le> w_mask (rs ! j) \<longrightarrow> fst (snd (evs ! j)) < 0) \<and>
         (2 ^ 31 \<le> w_cookie (rs ! j) \<longrightarrow> fst (snd (snd (evs ! j))) < 0)"
    by (rule exI [of _ "map decoded rs"])
qed

lemma build_event_samples:
  "build_event (encode_all [rec_create, rec_high]) 0 = Inr ((1, 256, 0, [97, 98]), 16)"
  using build_event_encode [OF well_formed_samples(1), of "[]" "encode_record rec_high"]
  by (simp add: encode_all_def decoded_samples) (simp add: rec_create_def)

lemma decode_samples:
  "decode_loop append_succeeds (encode_all [rec_create, rec_high]) 48 0 [] =
     Some (Inr [(1, 256, 0, [97, 98]), (2, - 2147483648, - 2147483648, [])])"
  using decode_encoded [of "[rec_create, rec_high]" append_succeeds "[]"]
  by (simp add: well_formed_samples append_succeeds_def decoded_samples length_encode_samples)

lemma cursor_samples: "cursor_after (encode_all [rec_create, rec_high]) 0 (Suc 0) = 32"
  using build_event_len_field [OF build_event_samples] by (simp add: EVENT_SIZE_def)

lemma event_at_samples:
  "event_at (encode_all [rec_create, rec_high]) 32 =
     Some \<lparr>ie_wd = 2, ie_mask = 2147483648, ie_cookie = 2147483648, ie_len = 0\<rparr>"
proof -
  have l: "length (encode_record rec_create) = 32"
    by (simp add: length_encode_record EVENT_SIZE_def rec_create_def)
  show ?thesis
    using event_at_encode [of "encode_record rec_create" rec_high "[]"]
    by (simp add: encode_all_def l) (simp add: rec_high_def)
qed

theorem mask_cookie_signed_witness:
  "decode_loop append_succeeds (encode_all [rec_create, rec_high]) 48 0 [] =
     Some (Inr [(1, 256, 0, [97, 98]), (2, - 2147483648, - 2147483648, [])]) \<and>
   (1 :: nat) < length [(1, 256, 0, [97, 98]), (2, - 2147483648, - 2147483648, []) :: event] \<and>
   cursor_after (encode_all [rec_create, rec_high]) 0 1 = 32 \<and>
   event_at (encode_all [rec_create, rec_high]) 32 =
     Some \<lparr>ie_wd = 2, ie_mask = 2147483648, ie_cookie = 2147483648, ie_len = 0\<rparr> \<and>
   (2147483648 :: uint32_t) AND IN_ONESHOT \<noteq> 0 \<and>
   (2 ^ 31 :: int) \<le> uint (2147483648 :: uint32_t) \<and>
   fst (snd ([(1, 256, 0, [97, 98]), (2, - 2147483648, - 2147483648, []) :: event] ! 1)) < 0 \<and>
   fst (snd (snd ([(1, 256, 0, [97, 98]), (2, - 2147483648, - 2147483648, []) :: event] ! 1)))
     < 0 \<and>
   well_formed rec_create \<and> well_formed rec_high \<and>
   append_succeeds 0 \<and> append_succeeds 1 \<and>
   (1 :: nat) < length [rec_create, rec_high] \<and>
   2 ^ 31 \<le> w_mask ([rec_create, rec_high] ! 1) \<and>
   2 ^ 31 \<le> w_cookie ([rec_create, rec_high] ! 1) \<and>
   (\<exists>evs. decode_loop append_succeeds (encode_all [rec_create, rec_high])
            (int (length (encode_all [rec_create, rec_high]))) 0 [] = Some (Inr evs) \<and>
      length evs = 2 \<and>
      fst (snd (evs ! 1)) = w_mask rec_high - 2 ^ 32 \<and> fst (snd (evs ! 1)) < 0 \<and>
      fst (snd (snd (evs ! 1))) = w_cookie rec_high - 2 ^ 32 \<and> fst (snd (snd (evs ! 1))) < 0)"
proof -
  let ?B = "encode_all [rec_create, rec_high]"
  let ?R = "[(1, 256, 0, [97, 98]), (2, - 2147483648, - 2147483648, [])] :: event list"
  let ?H = "\<lparr>ie_wd = 2, ie_mask = 2147483648, ie_cookie = 2147483648, ie_len = 0\<rparr>"
  note t = mask_cookie_signed [where ok = append_succeeds and buf = ?B and length' = 48
      and res = ?R and i = 1 and rs = "[rec_create, rec_high]" and j = 1]
  have c: "cursor_after ?B 0 1 = 32"
    using cursor_samples by simp
  have one: "(2147483648 :: uint32_t) AND IN_ONESHOT \<noteq> 0"
    by (simp add: IN_ONESHOT_def)
  have hi: "(2 ^ 31 :: int) \<le> uint (2147483648 :: uint32_t)"
    by simp
  have a: "decode_loop append_succeeds ?B 48 0 [] = Some (Inr ?R) \<and> 1 < length ?R"
    using decode_samples by simp
  from t [THEN conjunct1, THEN mp, OF a] obtain h name where
    h: "event_at ?B (cursor_after ?B 0 1) = Some h"
    and m: "ie_mask h AND IN_ONESHOT \<noteq> 0 \<longrightarrow> fst (snd (?R ! 1)) < 0"
    and k: "2 ^ 31 \<le> uint (ie_cookie h) \<longrightarrow> fst (snd (snd (?R ! 1))) < 0"
    by blast
  from h have "h = ?H"
    unfolding c event_at_samples by simp
  with m k one hi have neg: "fst (snd (?R ! 1)) < 0" "fst (snd (snd (?R ! 1))) < 0"
    by simp_all
  have w: "\<forall>r\<in>set [rec_create, rec_high]. well_formed r"
    by (simp add: well_formed_samples)
  have ok: "\<forall>k<length [rec_create, rec_high]. append_succeeds k"
    by (simp add: append_succeeds_def)
  have big: "2 ^ 31 \<le> w_mask ([rec_create, rec_high] ! 1)"
    "2 ^ 31 \<le> w_cookie ([rec_create, rec_high] ! 1)"
    by (simp_all add: rec_high_def)
  have "(\<forall>r\<in>set [rec_create, rec_high]. well_formed r) \<and>
      (\<forall>k<length [rec_create, rec_high]. append_succeeds k) \<and>
      (1 :: nat) < length [rec_create, rec_high]"
    using w ok by simp
  from t [THEN conjunct2, THEN mp, OF this] obtain evs where
    e: "decode_loop append_succeeds ?B (int (length ?B)) 0 [] = Some (Inr evs)"
      "length evs = length [rec_create, rec_high]"
      "fst (snd (evs ! 1)) =
         (if w_mask ([rec_create, rec_high] ! 1) < 2 ^ 31 then w_mask ([rec_create, rec_high] ! 1)
          else w_mask ([rec_create, rec_high] ! 1) - 2 ^ 32)"
      "fst (snd (snd (evs ! 1))) =
         (if w_cookie ([rec_create, rec_high] ! 1) < 2 ^ 31
          then w_cookie ([rec_create, rec_high] ! 1)
          else w_cookie ([rec_create, rec_high] ! 1) - 2 ^ 32)"
      "2 ^ 31 \<le> w_mask ([rec_create, rec_high] ! 1) \<longrightarrow> fst (snd (evs ! 1)) < 0"
      "2 ^ 31 \<le> w_cookie ([rec_create, rec_high] ! 1) \<longrightarrow> fst (snd (snd (evs ! 1))) < 0"
    by blast
  from e(3) e(4) have v: "fst (snd (evs ! 1)) = w_mask rec_high - 2 ^ 32"
    "fst (snd (snd (evs ! 1))) = w_cookie rec_high - 2 ^ 32"
    by (simp_all add: rec_high_def)
  from e(5) e(6) big have n: "fst (snd (evs ! 1)) < 0" "fst (snd (snd (evs ! 1))) < 0"
    by blast+
  from e(1) e(2) v n
  have ex: "\<exists>evs. decode_loop append_succeeds ?B (int (length ?B)) 0 [] = Some (Inr evs) \<and>
      length evs = 2 \<and>
      fst (snd (evs ! 1)) = w_mask rec_high - 2 ^ 32 \<and> fst (snd (evs ! 1)) < 0 \<and>
      fst (snd (snd (evs ! 1))) = w_cookie rec_high - 2 ^ 32 \<and> fst (snd (snd (evs ! 1))) < 0"
    by (intro exI [of _ evs]) simp
  have ap: "append_succeeds 0" "append_succeeds 1"
    by (simp_all add: append_succeeds_def)
  have len: "(1 :: nat) < length ?R" "(1 :: nat) < length [rec_create, rec_high]"
    by simp_all
  from decode_samples len(1) c event_at_samples one hi neg well_formed_samples ap len(2) big ex
  show ?thesis
    by (intro conjI)
qed

section \<open>Termination of the decode loop\<close>

lemma decode_loop_outcomes:
  "(\<exists>res. decode_loop ok buf l p evs = Some (Inr res)) \<or>
   decode_loop ok buf l p evs = Some (Inl (Raise MemoryError Builtin)) \<or>
   decode_loop ok buf l p evs = Some (Inl Undefined)"
proof -
  have "\<exists>r. decode_loop ok buf l p evs = Some r"
    by (rule decode_loop_cases [where P = "\<lambda>p events x. \<exists>r. x = Some r"]) simp_all
  then obtain r where r: "decode_loop ok buf l p evs = Some r" ..
  show ?thesis
  proof (cases r)
    case (Inl f)
    with r decode_loop_faults [of ok buf l p evs f] show ?thesis by auto
  next
    case (Inr res)
    with r show ?thesis by simp
  qed
qed

lemma event_at_far:
  "event_at (buffer env_far) 0 =
     Some \<lparr>ie_wd = 1, ie_mask = 2, ie_cookie = 0, ie_len = 4294967280\<rparr>"
  by (simp add: event_at_def length_buffer rd32_def buffer_nth BUF_LENGTH_def EVENT_SIZE_def
      le32_def env_far_def)

lemma name_at_far: "name_at (buffer env_far) 0 = Some []"
  unfolding name_at_def
  by (rule cstring_zero)
    (simp_all add: length_buffer buffer_nth BUF_LENGTH_def EVENT_SIZE_def env_far_def
      zero_stack_def)

lemma build_event_far:
  "build_event (buffer env_far) 0 = Inr ((1, 2, 0, []), 4294967280)"
  by (simp add: build_event_def event_at_far name_at_far)

lemma decode_far:
  "decode_loop append_succeeds (buffer env_far) 16 0 [] = Some (Inl Undefined)"
  by (rule decode_loop_leave [OF _ build_event_far])
    (simp_all add: append_succeeds_def length_buffer BUF_LENGTH_def EVENT_SIZE_def)

lemma build_event_samples_high:
  "build_event (encode_all [rec_create, rec_high]) 32 =
     Inr ((2, - 2147483648, - 2147483648, []), 0)"
  by (simp add: build_event_def event_at_samples)

lemma cursor_samples_end:
  "cursor_after (encode_all [rec_create, rec_high]) 0 (Suc (Suc 0)) = 48"
  using build_event_len_field [OF build_event_samples_high] cursor_samples
  by (simp add: EVENT_SIZE_def)

lemma samples_inside:
  "int (cursor_after (encode_all [rec_create, rec_high]) 0 k) < 48 \<longrightarrow>
     build_event (encode_all [rec_create, rec_high])
       (cursor_after (encode_all [rec_create, rec_high]) 0 k) \<noteq> Inl Undefined \<and>
     cursor_after (encode_all [rec_create, rec_high]) 0 (Suc k)
       \<le> length (encode_all [rec_create, rec_high])"
proof -
  let ?B = "encode_all [rec_create, rec_high]"
  have "k = 0 \<or> k = Suc 0 \<or> k = Suc (Suc 0) \<or> 3 \<le> k"
    by arith
  then consider "k = 0" | "k = Suc 0" | "k = Suc (Suc 0)" | "3 \<le> k"
    by blast
  then show ?thesis
  proof cases
    case 1
    have "cursor_after ?B 0 0 = 0" by simp
    with 1 build_event_samples cursor_samples show ?thesis
      by (simp add: length_encode_samples)
  next
    case 2
    with build_event_samples_high cursor_samples cursor_samples_end show ?thesis
      by (simp only: length_encode_samples) simp
  next
    case 3
    with cursor_samples_end show ?thesis by (simp only:) simp
  next
    case 4
    from cursor_after_ge [of 0 k ?B] 4 have "48 \<le> cursor_after ?B 0 k"
      by (simp add: EVENT_SIZE_def)
    then show ?thesis by simp
  qed
qed

text \<open>
  C9 as stated has the loop end for every content of the array, because the cursor
  grows by at least 16 with each pass. The cursor is a C pointer and not a number: a read
  of 16 bytes, the fixed part of a record whose \<open>len\<close> is \<open>2 ^ 32 - 16\<close>, sends it
  \<open>2 ^ 32\<close> bytes past the record, far outside the array of 4096 bytes, where C defines
  no behaviour; counted modulo \<open>2 ^ 32\<close>, as pointers of 32 bits are, the cursor is back
  on the record that it left, and the pass starts again.
\<close>

theorem far_cursor_counterexample:
  "select_result env_far = 1 \<and> read_result env_far = 16 \<and>
   read_bytes env_far = [1, 0, 0, 0, 2, 0, 0, 0, 0, 0, 0, 0, 240, 255, 255, 255] \<and>
   build_event (buffer env_far) 0 = Inr ((1, 2, 0, []), 4294967280) \<and>
   (0 + EVENT_SIZE + 4294967280) mod 2 ^ 32 = (0 :: nat) \<and>
   length (buffer env_far) < 0 + EVENT_SIZE + 4294967280 \<and>
   get_events env_far [PyInt 3, PyNone] =
     ([Select 4 None, Read 3 4096], Some (Inl Undefined))"
proof -
  have "after_select env_far 3 = ([Read 3 4096], Some (Inl Undefined))"
    using decode_far by (simp add: after_select_def env_far_def BUF_LENGTH_def)
  then have "get_events env_far [PyInt 3, PyNone] =
     ([Select 4 None, Read 3 4096], Some (Inl Undefined))"
    by (simp add: get_events_after_prologue [OF prologue_sample_None])
  moreover have "select_result env_far = 1" "read_result env_far = 16"
    "read_bytes env_far = [1, 0, 0, 0, 2, 0, 0, 0, 0, 0, 0, 0, 240, 255, 255, 255]"
    by (simp_all add: env_far_def)
  moreover have "(0 + EVENT_SIZE + 4294967280) mod 2 ^ 32 = (0 :: nat)"
    "length (buffer env_far) < 0 + EVENT_SIZE + 4294967280"
    by (simp_all add: EVENT_SIZE_def length_buffer BUF_LENGTH_def)
  ultimately show ?thesis
    using build_event_far by (intro conjI)
qed

text \<open>
  C9, as amended: the decode loop always ends in one of three outcomes: a list, the
  \<open>MemoryError\<close> of a failed append, or undefined behaviour. Each pass that goes on adds
  to the cursor the 16 bytes of the fixed part and the \<open>len\<close> field of the record it read,
  so the cursor grows by at least 16 and its distance to the length that \<open>read\<close> returned
  shrinks. As long as every pass reads its record inside the array and leaves the cursor
  at most one past its end, the behaviour is defined and the loop returns the list or
  raises \<open>MemoryError\<close>, a list after at most one pass for every 16 bytes of the array
  that follow the first cursor. A pass whose \<open>len\<close> carries the cursor further is
  undefined behaviour, and the loop has undefined behaviour only if some pass reads or
  moves outside the array.
\<close>

theorem decode_loop_terminates:
  "((\<exists>res. decode_loop ok buf length' p events = Some (Inr res)) \<or>
    decode_loop ok buf length' p events = Some (Inl (Raise MemoryError Builtin)) \<or>
    decode_loop ok buf length' p events = Some (Inl Undefined)) \<and>
   ((\<forall>k. int (cursor_after buf p k) < length' \<longrightarrow>
          build_event buf (cursor_after buf p k) \<noteq> Inl Undefined \<and>
          cursor_after buf p (Suc k) \<le> length buf) \<longrightarrow>
      (\<exists>res. decode_loop ok buf length' p events = Some (Inr res)) \<or>
      decode_loop ok buf length' p events = Some (Inl (Raise MemoryError Builtin))) \<and>
   cursor_after buf p i + EVENT_SIZE \<le> cursor_after buf p (Suc i) \<and>
   (int p < length' \<and> build_event buf p = Inr (e, len) \<and> ok (length events) \<and>
    p + EVENT_SIZE + len \<le> length buf \<longrightarrow>
      decode_loop ok buf length' p events =
        decode_loop ok buf length' (p + EVENT_SIZE + len) (events @ [e]) \<and>
      (\<exists>h. event_at buf p = Some h \<and> len = unat (ie_len h)) \<and>
      p < p + EVENT_SIZE + len \<and>
      nat (length' - int (p + EVENT_SIZE + len)) < nat (length' - int p)) \<and>
   (int p < length' \<and> build_event buf p = Inr (e, len) \<and> ok (length events) \<and>
    length buf < p + EVENT_SIZE + len \<longrightarrow>
      decode_loop ok buf length' p events = Some (Inl Undefined)) \<and>
   (decode_loop ok buf length' p events = Some (Inl Undefined) \<longrightarrow>
      (\<exists>k. int (cursor_after buf p k) < length' \<and>
         (build_event buf (cursor_after buf p k) = Inl Undefined \<or>
          length buf < cursor_after buf p (Suc k)))) \<and>
   (decode_loop ok buf length' p events = Some (Inr res) \<longrightarrow>
      (\<exists>n. length res = length events + n \<and> EVENT_SIZE * n \<le> length buf - p \<and>
         (\<forall>k<n. int (cursor_after buf p k) < length') \<and>
         \<not> int (cursor_after buf p n) < length'))"
proof -
  note out = decode_loop_outcomes [of ok buf length' p events]
  have und: "\<exists>k. int (cursor_after buf p k) < length' \<and>
         (build_event buf (cursor_after buf p k) = Inl Undefined \<or>
          length buf < cursor_after buf p (Suc k))"
    if "decode_loop ok buf length' p events = Some (Inl Undefined)"
    using that by (rule decode_loop_undefined)
  have defined: "(\<exists>res. decode_loop ok buf length' p events = Some (Inr res)) \<or>
      decode_loop ok buf length' p events = Some (Inl (Raise MemoryError Builtin))"
    if inside: "\<forall>k. int (cursor_after buf p k) < length' \<longrightarrow>
          build_event buf (cursor_after buf p k) \<noteq> Inl Undefined \<and>
          cursor_after buf p (Suc k) \<le> length buf"
  proof (rule ccontr)
    assume "\<not> ?thesis"
    with out have "decode_loop ok buf length' p events = Some (Inl Undefined)"
      by blast
    from und [OF this] obtain k where "int (cursor_after buf p k) < length'"
      and "build_event buf (cursor_after buf p k) = Inl Undefined \<or>
          length buf < cursor_after buf p (Suc k)"
      by blast
    with inside show False
      by (auto simp: not_le [symmetric])
  qed
  have grow: "cursor_after buf p i + EVENT_SIZE \<le> cursor_after buf p (Suc i)"
    by simp
  have step: "decode_loop ok buf length' p events =
        decode_loop ok buf length' (p + EVENT_SIZE + len) (events @ [e]) \<and>
      (\<exists>h. event_at buf p = Some h \<and> len = unat (ie_len h)) \<and>
      p < p + EVENT_SIZE + len \<and>
      nat (length' - int (p + EVENT_SIZE + len)) < nat (length' - int p)"
    if "int p < length'" "build_event buf p = Inr (e, len)" "ok (length events)"
      "p + EVENT_SIZE + len \<le> length buf"
    using decode_loop_step [where ok = ok and events = events, OF that]
      build_event_len [OF that(2)] that(1)
    by (simp add: EVENT_SIZE_def)
  have leave: "decode_loop ok buf length' p events = Some (Inl Undefined)"
    if "int p < length'" "build_event buf p = Inr (e, len)" "ok (length events)"
      "length buf < p + EVENT_SIZE + len"
    using that by (rule decode_loop_leave [where ok = ok and events = events])
  have count: "\<exists>n. length res = length events + n \<and> EVENT_SIZE * n \<le> length buf - p \<and>
         (\<forall>k<n. int (cursor_after buf p k) < length') \<and>
         \<not> int (cursor_after buf p n) < length'"
    if "decode_loop ok buf length' p events = Some (Inr res)"
    using that by (rule decode_loop_count)
  from out defined grow step leave und count show ?thesis
    by blast
qed

theorem decode_loop_terminates_witness:
  "(0 :: int) < 48 \<and>
   build_event (encode_all [rec_create, rec_high]) 0 = Inr ((1, 256, 0, [97, 98]), 16) \<and>
   append_succeeds (length ([] :: event list)) \<and>
   0 + EVENT_SIZE + 16 \<le> length (encode_all [rec_create, rec_high]) \<and>
   cursor_after (encode_all [rec_create, rec_high]) 0 0 = 0 \<and>
   cursor_after (encode_all [rec_create, rec_high]) 0 1 = 32 \<and>
   build_event (encode_all [rec_create, rec_high]) 32 =
     Inr ((2, - 2147483648, - 2147483648, []), 0) \<and>
   cursor_after (encode_all [rec_create, rec_high]) 0 2 = 48 \<and>
   length (encode_all [rec_create, rec_high]) = 48 \<and>
   decode_loop append_succeeds (encode_all [rec_create, rec_high]) 48 0 [] =
     Some (Inr [(1, 256, 0, [97, 98]), (2, - 2147483648, - 2147483648, [])]) \<and>
   decode_loop append_succeeds (encode_all [rec_create, rec_high]) 48 32 [(1, 256, 0, [97, 98])] =
     Some (Inr [(1, 256, 0, [97, 98]), (2, - 2147483648, - 2147483648, [])]) \<and>
   (0 :: nat) < 32 \<and> nat (48 - int 32) < nat (48 - int 0) \<and>
   (\<exists>n. length [(1, 256, 0, [97, 98]), (2, - 2147483648, - 2147483648, []) :: event] =
          length ([] :: event list) + n \<and>
      EVENT_SIZE * n \<le> length (encode_all [rec_create, rec_high]) - 0 \<and>
      \<not> int (cursor_after (encode_all [rec_create, rec_high]) 0 n) < 48) \<and>
   (0 :: int) < 16 \<and>
   build_event (buffer env_far) 0 = Inr ((1, 2, 0, []), 4294967280) \<and>
   length (buffer env_far) < 0 + EVENT_SIZE + 4294967280 \<and>
   decode_loop append_succeeds (buffer env_far) 16 0 [] = Some (Inl Undefined) \<and>
   (\<exists>k. int (cursor_after (buffer env_far) 0 k) < 16 \<and>
      (build_event (buffer env_far) (cursor_after (buffer env_far) 0 k) = Inl Undefined \<or>
       length (buffer env_far) < cursor_after (buffer env_far) 0 (Suc k)))"
proof -
  let ?B = "encode_all [rec_create, rec_high]"
  let ?R = "[(1, 256, 0, [97, 98]), (2, - 2147483648, - 2147483648, [])] :: event list"
  note t = decode_loop_terminates [where ok = append_succeeds and buf = ?B and length' = 48
      and p = 0 and events = "[]" and i = 0 and e = "(1, 256, 0, [97, 98])" and len = 16
      and res = ?R]
  note u = decode_loop_terminates [where ok = append_succeeds and buf = "buffer env_far"
      and length' = 16 and p = 0 and events = "[]" and i = 0 and e = "(1, 2, 0, [])"
      and len = 4294967280 and res = "[]"]
  have a: "append_succeeds (length ([] :: event list))"
    by (simp add: append_succeeds_def)
  have l: "int 0 < 48" "(0 :: int) < 16" "int 0 < 16"
    by simp_all
  have fit: "0 + EVENT_SIZE + 16 \<le> length ?B"
    by (simp add: length_encode_samples EVENT_SIZE_def)
  have c: "cursor_after ?B 0 0 = 0" "cursor_after ?B 0 1 = 32" "cursor_after ?B 0 2 = 48"
    using cursor_samples cursor_samples_end by (simp_all add: numeral_2_eq_2)
  have inside: "\<forall>k. int (cursor_after ?B 0 k) < 48 \<longrightarrow>
      build_event ?B (cursor_after ?B 0 k) \<noteq> Inl Undefined \<and>
      cursor_after ?B 0 (Suc k) \<le> length ?B"
    using samples_inside by blast
  from t inside
  have d: "(\<exists>res. decode_loop append_succeeds ?B 48 0 [] = Some (Inr res)) \<or>
      decode_loop append_succeeds ?B 48 0 [] = Some (Inl (Raise MemoryError Builtin))"
    by blast
  from t l(1) build_event_samples a fit
  have "decode_loop append_succeeds ?B 48 0 [] =
      decode_loop append_succeeds ?B 48 (0 + EVENT_SIZE + 16) ([] @ [(1, 256, 0, [97, 98])])"
    by blast
  with decode_samples
  have s: "decode_loop append_succeeds ?B 48 32 [(1, 256, 0, [97, 98])] = Some (Inr ?R)"
    by (simp add: EVENT_SIZE_def)
  from t decode_samples
  have "\<exists>n. length ?R = length ([] :: event list) + n \<and> EVENT_SIZE * n \<le> length ?B - 0 \<and>
      (\<forall>k<n. int (cursor_after ?B 0 k) < 48) \<and> \<not> int (cursor_after ?B 0 n) < 48"
    by blast
  then have n: "\<exists>n. length ?R = length ([] :: event list) + n \<and>
      EVENT_SIZE * n \<le> length ?B - 0 \<and> \<not> int (cursor_after ?B 0 n) < 48"
    by blast
  have far: "length (buffer env_far) < 0 + EVENT_SIZE + 4294967280"
    by (simp add: EVENT_SIZE_def length_buffer BUF_LENGTH_def)
  from u l(3) build_event_far a far
  have f: "decode_loop append_succeeds (buffer env_far) 16 0 [] = Some (Inl Undefined)"
    by blast
  with u
  have k: "\<exists>k. int (cursor_after (buffer env_far) 0 k) < 16 \<and>
      (build_event (buffer env_far) (cursor_after (buffer env_far) 0 k) = Inl Undefined \<or>
       length (buffer env_far) < cursor_after (buffer env_far) 0 (Suc k))"
    by blast
  have m: "(0 :: nat) < 32" "nat (48 - int 32) < nat (48 - int 0)" "(0 :: int) < 48"
    by simp_all
  from m(3) build_event_samples a fit c(1) c(2) build_event_samples_high c(3)
    length_encode_samples decode_samples s m(1) m(2) n l(2) build_event_far far f k
  show ?thesis
    by (intro conjI)
qed

section \<open>The single read\<close>

lemma event_at_no_name:
  "event_at (buffer env_no_name) 0 =
     Some \<lparr>ie_wd = 1, ie_mask = 256, ie_cookie = 0, ie_len = 16\<rparr>"
  "event_at (buffer env_no_name_stale) 0 =
     Some \<lparr>ie_wd = 1, ie_mask = 256, ie_cookie = 0, ie_len = 16\<rparr>"
  by (simp_all add: event_at_def length_buffer rd32_def buffer_nth BUF_LENGTH_def EVENT_SIZE_def
      le32_def env_no_name_def env_no_name_stale_def)

lemma name_at_no_name: "name_at (buffer env_no_name) 0 = Some []"
  unfolding name_at_def
  by (rule cstring_zero)
    (simp_all add: length_buffer buffer_nth BUF_LENGTH_def EVENT_SIZE_def env_no_name_def
      zero_stack_def)

lemma name_at_no_name_stale: "name_at (buffer env_no_name_stale) 0 = Some [97]"
proof -
  have l: "16 < length (buffer env_no_name_stale)" "Suc 16 < length (buffer env_no_name_stale)"
    by (simp_all add: length_buffer BUF_LENGTH_def)
  have a: "buffer env_no_name_stale ! 16 = 97"
    by (simp add: buffer_nth BUF_LENGTH_def env_no_name_stale_def name_stack_def)
  have z: "buffer env_no_name_stale ! Suc 16 = 0"
    by (simp add: buffer_nth BUF_LENGTH_def env_no_name_stale_def name_stack_def)
  have "cstring (drop (Suc 16) (buffer env_no_name_stale)) = Some []"
    using l(2) z by (rule cstring_zero)
  moreover have "buffer env_no_name_stale ! 16 \<noteq> 0"
    by (simp add: a)
  ultimately have "cstring (drop 16 (buffer env_no_name_stale)) = Some [97]"
    using cstring_byte [OF l(1)] a by simp
  then show ?thesis
    by (simp add: name_at_def EVENT_SIZE_def)
qed

lemma build_event_no_name:
  "build_event (buffer env_no_name) 0 = Inr ((1, 256, 0, []), 16)"
  "build_event (buffer env_no_name_stale) 0 = Inr ((1, 256, 0, [97]), 16)"
  by (simp_all add: build_event_def event_at_no_name name_at_no_name name_at_no_name_stale)

lemma decode_no_name:
  "decode_loop append_succeeds (buffer env_no_name) 16 0 [] = Some (Inr [(1, 256, 0, [])])"
proof -
  have "decode_loop append_succeeds (buffer env_no_name) 16 0 [] =
          decode_loop append_succeeds (buffer env_no_name) 16 (0 + EVENT_SIZE + 16)
            ([] @ [(1, 256, 0, [])])"
    by (rule decode_loop_step [OF _ build_event_no_name(1)])
      (simp_all add: append_succeeds_def length_buffer BUF_LENGTH_def EVENT_SIZE_def)
  also have "\<dots> = Some (Inr [(1, 256, 0, [])])"
    by (subst decode_loop.simps) (simp add: EVENT_SIZE_def)
  finally show ?thesis .
qed

lemma decode_no_name_stale:
  "decode_loop append_succeeds (buffer env_no_name_stale) 16 0 [] =
     Some (Inr [(1, 256, 0, [97])])"
proof -
  have "decode_loop append_succeeds (buffer env_no_name_stale) 16 0 [] =
          decode_loop append_succeeds (buffer env_no_name_stale) 16 (0 + EVENT_SIZE + 16)
            ([] @ [(1, 256, 0, [97])])"
    by (rule decode_loop_step [OF _ build_event_no_name(2)])
      (simp_all add: append_succeeds_def length_buffer BUF_LENGTH_def EVENT_SIZE_def)
  also have "\<dots> = Some (Inr [(1, 256, 0, [97])])"
    by (subst decode_loop.simps) (simp add: EVENT_SIZE_def)
  finally show ?thesis .
qed

text \<open>
  C6 as stated has every event returned decoded from the bytes of the read. Two calls
  whose read returns the same 16 bytes, the fixed part of a record of watch 1 that
  announces a name of 16 bytes, return different events: the name of the event is the
  C string of cell 16 of the array, which the read did not write, empty when the array
  held zeros before the call and \<open>a\<close> when cell 16 held that letter.
\<close>

theorem stale_name_counterexample:
  "select_result env_no_name = 1 \<and> select_result env_no_name_stale = 1 \<and>
   read_result env_no_name = 16 \<and> read_result env_no_name_stale = 16 \<and>
   read_bytes env_no_name = [1, 0, 0, 0, 0, 1, 0, 0, 0, 0, 0, 0, 16, 0, 0, 0] \<and>
   read_bytes env_no_name_stale = [1, 0, 0, 0, 0, 1, 0, 0, 0, 0, 0, 0, 16, 0, 0, 0] \<and>
   get_events env_no_name [PyInt 3, PyNone] =
     ([Select 4 None, Read 3 4096], Some (Inr [(1, 256, 0, [])])) \<and>
   get_events env_no_name_stale [PyInt 3, PyNone] =
     ([Select 4 None, Read 3 4096], Some (Inr [(1, 256, 0, [97])]))"
proof -
  have "after_select env_no_name 3 = ([Read 3 4096], Some (Inr [(1, 256, 0, [])]))"
    using decode_no_name by (simp add: after_select_def env_no_name_def BUF_LENGTH_def)
  moreover have "after_select env_no_name_stale 3 =
      ([Read 3 4096], Some (Inr [(1, 256, 0, [97])]))"
    using decode_no_name_stale
    by (simp add: after_select_def env_no_name_stale_def BUF_LENGTH_def)
  ultimately show ?thesis
    by (simp add: get_events_after_prologue [OF prologue_sample_None])
      (simp add: env_no_name_def env_no_name_stale_def)
qed

text \<open>
  C6, as amended: when the call reaches the wait and \<open>select\<close> reports the descriptor
  ready, \<open>get_events\<close> makes one call of \<open>read\<close>, for 4096 bytes, and no other system call
  after the wait. The array holds the bytes of this read in its first cells and what it
  held before the call in the others. Every event of the list returned is built from the
  record of the array under the cursor, and that record starts before the length that
  the read returned; where it ends is not checked. When the read returns complete
  records, the list returned is the list of their events, whatever the array held
  before.
\<close>

theorem single_read:
  assumes "prologue env args = Inr (fd, timeout_p)" and "0 < select_result env"
  shows "fst (get_events env args) = [Select (fd + 1) timeout_p, Read fd 4096] \<and>
         snd (get_events env args) =
           (if read_result env = - 1
            then Some (Inl (PyErr_SetFromErrno IOError (read_errno env) (check_signals env)))
            else if read_result env = 0
            then Some (Inl (Raise IOError (Msg ''event buffer too small'')))
            else decode_loop (append_ok env) (buffer env) (read_result env) 0 []) \<and>
         (j < length (read_bytes env) \<and> j < BUF_LENGTH \<longrightarrow>
            buffer env ! j = read_bytes env ! j) \<and>
         (length (read_bytes env) \<le> k \<and> k < BUF_LENGTH \<longrightarrow>
            buffer env ! k = stack_bytes env k) \<and>
         (snd (get_events env args) = Some (Inr res) \<and> i < length res \<longrightarrow>
            int (cursor_after (buffer env) 0 i) < read_result env \<and>
            (\<exists>len. build_event (buffer env) (cursor_after (buffer env) 0 i) =
               Inr (res ! i, len))) \<and>
         (read_result env = int (length (read_bytes env)) \<and>
          read_bytes env = encode_all rs \<and> rs \<noteq> [] \<and> (\<forall>r\<in>set rs. well_formed r) \<and>
          length (read_bytes env) \<le> BUF_LENGTH \<and> (\<forall>n<length rs. append_ok env n) \<longrightarrow>
          snd (get_events env args) = Some (Inr (map decoded rs)))"
proof -
  have trace: "fst (get_events env args) = [Select (fd + 1) timeout_p, Read fd 4096]"
    using assms by (simp add: get_events_after_prologue after_select_def BUF_LENGTH_def)
  have outcome: "snd (get_events env args) =
      (if read_result env = - 1
       then Some (Inl (PyErr_SetFromErrno IOError (read_errno env) (check_signals env)))
       else if read_result env = 0
       then Some (Inl (Raise IOError (Msg ''event buffer too small'')))
       else decode_loop (append_ok env) (buffer env) (read_result env) 0 [])"
    using assms by (simp add: get_events_after_prologue after_select_def)
  have fresh: "buffer env ! j = read_bytes env ! j"
    if "j < length (read_bytes env) \<and> j < BUF_LENGTH"
    using that by (simp add: buffer_nth)
  have stale: "buffer env ! k = stack_bytes env k"
    if "length (read_bytes env) \<le> k \<and> k < BUF_LENGTH"
    using that by (simp add: buffer_nth)
  have each: "int (cursor_after (buffer env) 0 i) < read_result env \<and>
      (\<exists>len. build_event (buffer env) (cursor_after (buffer env) 0 i) = Inr (res ! i, len))"
    if r: "snd (get_events env args) = Some (Inr res) \<and> i < length res"
  proof -
    from r outcome
    have "decode_loop (append_ok env) (buffer env) (read_result env) 0 [] = Some (Inr res)"
      by (simp split: if_splits)
    from decode_loop_records [OF this] r show ?thesis
      by auto
  qed
  have complete: "snd (get_events env args) = Some (Inr (map decoded rs))"
    if c: "read_result env = int (length (read_bytes env)) \<and>
          read_bytes env = encode_all rs \<and> rs \<noteq> [] \<and> (\<forall>r\<in>set rs. well_formed r) \<and>
          length (read_bytes env) \<le> BUF_LENGTH \<and> (\<forall>n<length rs. append_ok env n)"
  proof -
    from assms(2) have "select_result env \<noteq> - 1" "select_result env \<noteq> 0" by simp_all
    moreover from c have "read_result env = int (length (read_bytes env))"
      "read_bytes env = encode_all rs" "rs \<noteq> []" "\<forall>r\<in>set rs. well_formed r"
      "length (read_bytes env) \<le> BUF_LENGTH" "\<forall>n<length rs. append_ok env n"
      by blast+
    ultimately have "after_select env fd = ([Read fd BUF_LENGTH], Some (Inr (map decoded rs)))"
      by (rule after_select_encoded)
    then show ?thesis
      by (simp add: get_events_after_prologue [OF assms(1)])
  qed
  from trace outcome fresh stale each complete show ?thesis
    by blast
qed

theorem single_read_witness:
  "prologue env_two [PyInt 3, PyNone] = Inr (3, None) \<and> 0 < select_result env_two \<and>
   read_result env_two = int (length (read_bytes env_two)) \<and>
   read_bytes env_two = encode_all [rec_create, rec_high] \<and>
   well_formed rec_create \<and> well_formed rec_high \<and>
   length (read_bytes env_two) \<le> BUF_LENGTH \<and>
   append_ok env_two 0 \<and> append_ok env_two 1 \<and>
   get_events env_two [PyInt 3, PyNone] =
     ([Select 4 None, Read 3 4096],
      Some (Inr [(1, 256, 0, [97, 98]), (2, - 2147483648, - 2147483648, [])])) \<and>
   (0 :: nat) < length (read_bytes env_two) \<and> 0 < BUF_LENGTH \<and>
   buffer env_two ! 0 = read_bytes env_two ! 0 \<and>
   length (read_bytes env_two) \<le> 48 \<and> 48 < BUF_LENGTH \<and>
   buffer env_two ! 48 = stack_bytes env_two 48 \<and>
   (1 :: nat) < length [(1, 256, 0, [97, 98]), (2, - 2147483648, - 2147483648, []) :: event] \<and>
   int (cursor_after (buffer env_two) 0 1) < read_result env_two \<and>
   (\<exists>len. build_event (buffer env_two) (cursor_after (buffer env_two) 0 1) =
      Inr ([(1, 256, 0, [97, 98]), (2, - 2147483648, - 2147483648, [])] ! 1, len))"
proof -
  let ?R = "[(1, 256, 0, [97, 98]), (2, - 2147483648, - 2147483648, [])] :: event list"
  have s: "0 < select_result env_two"
    by (simp add: env_two_def)
  have r: "read_result env_two = int (length (read_bytes env_two))"
    "read_bytes env_two = encode_all [rec_create, rec_high]"
    by (simp_all add: env_two_def)
  have l: "length (read_bytes env_two) \<le> BUF_LENGTH"
    by (simp add: env_two_def length_encode_samples BUF_LENGTH_def)
  have a: "append_ok env_two 0" "append_ok env_two 1"
    by (simp_all add: env_two_def append_succeeds_def)
  have h: "read_result env_two = int (length (read_bytes env_two)) \<and>
      read_bytes env_two = encode_all [rec_create, rec_high] \<and>
      [rec_create, rec_high] \<noteq> [] \<and> (\<forall>r\<in>set [rec_create, rec_high]. well_formed r) \<and>
      length (read_bytes env_two) \<le> BUF_LENGTH \<and>
      (\<forall>n<length [rec_create, rec_high]. append_ok env_two n)"
    using r l by (simp add: well_formed_samples env_two_def append_succeeds_def)
  note t = single_read [OF prologue_sample_None s, where rs = "[rec_create, rec_high]"
      and j = 0 and k = 48 and res = ?R and i = 1]
  from t have tr: "fst (get_events env_two [PyInt 3, PyNone]) = [Select 4 None, Read 3 4096]"
    by simp
  from t h
  have "snd (get_events env_two [PyInt 3, PyNone]) = Some (Inr (map decoded [rec_create, rec_high]))"
    by blast
  then have sn: "snd (get_events env_two [PyInt 3, PyNone]) = Some (Inr ?R)"
    by (simp add: decoded_samples)
  from tr sn have g: "get_events env_two [PyInt 3, PyNone] =
     ([Select 4 None, Read 3 4096], Some (Inr ?R))"
    by (simp add: prod_eq_iff)
  have j: "(0 :: nat) < length (read_bytes env_two)" "0 < BUF_LENGTH"
    "length (read_bytes env_two) \<le> 48" "48 < BUF_LENGTH"
    by (simp_all add: r(2) length_encode_samples BUF_LENGTH_def)
  from t j have b: "buffer env_two ! 0 = read_bytes env_two ! 0"
    "buffer env_two ! 48 = stack_bytes env_two 48"
    by blast+
  have i: "(1 :: nat) < length ?R"
    by simp
  from t sn i have e: "int (cursor_after (buffer env_two) 0 1) < read_result env_two"
    "\<exists>len. build_event (buffer env_two) (cursor_after (buffer env_two) 0 1) =
       Inr (?R ! 1, len)"
    by blast+
  from prologue_sample_None [of env_two] s r well_formed_samples l a g j(1) j(2) b(1) j(3) j(4)
    b(2) i e
  show ?thesis
    by (intro conjI)
qed

section \<open>The bound of the wait\<close>

lemma trunc_nonneg: "0 \<le> x \<Longrightarrow> trunc x = \<lfloor>x\<rfloor>"
  by (simp add: trunc_def)

lemma int_of_double_Some:
  "- (2 ^ 31) \<le> trunc x \<Longrightarrow> trunc x < 2 ^ 31 \<Longrightarrow> int_of_double x = Some (trunc x)"
  by (simp add: int_of_double_def)

lemma usec_range:
  fixes t :: rat
  assumes "0 \<le> t"
  shows "0 \<le> 1000000 * (t - of_int \<lfloor>t\<rfloor>)" and "\<lfloor>1000000 * (t - of_int \<lfloor>t\<rfloor>)\<rfloor> < 1000000"
proof -
  have f: "0 \<le> t - of_int \<lfloor>t\<rfloor>" "t - of_int \<lfloor>t\<rfloor> < 1"
    by linarith+
  then show "0 \<le> 1000000 * (t - of_int \<lfloor>t\<rfloor>)" by simp
  from f have "1000000 * (t - of_int \<lfloor>t\<rfloor>) < 1000000" by simp
  then show "\<lfloor>1000000 * (t - of_int \<lfloor>t\<rfloor>)\<rfloor> < 1000000"
    by (simp add: floor_less_iff)
qed

lemma convert_timeout_float:
  assumes "int_of_double t = Some sec"
    and "int_of_double (rnd (1000000 * rnd (t - of_int sec))) = Some usec"
  shows "convert_timeout rnd (Some (PyFloat (Finite t))) =
           Inr (Some \<lparr>tv_sec = sec, tv_usec = usec\<rparr>)"
  using assms by (simp add: convert_timeout_def)

lemma prologue_float:
  assumes "convert_i a = Inr fd" and "0 \<le> fd" and "fd < FD_SETSIZE"
    and "convert_timeout (fp_round env) (Some b) = Inr timeout_p"
  shows "prologue env [a, b] = Inr (fd, timeout_p)"
  using assms by (simp add: prologue_def)

lemma get_events_select:
  assumes "convert_i a = Inr fd" and "0 \<le> fd" and "fd < FD_SETSIZE"
    and "convert_timeout (fp_round env) (Some b) = Inr timeout_p"
  shows "get_events env [a, b] =
           (Select (fd + 1) timeout_p # fst (after_select env fd), snd (after_select env fd))"
  by (rule get_events_after_prologue) (rule prologue_float [OF assms])

lemma convert_timeout_None: "convert_timeout rnd (Some PyNone) = Inr None"
  by (simp add: convert_timeout_def)

lemma convert_timeout_int:
  "\<bar>i\<bar> < 2 ^ 1024 - 2 ^ 970 \<Longrightarrow>
     convert_timeout rnd (Some (PyInt i)) =
       convert_timeout rnd (Some (PyFloat (Finite (of_int i))))"
  by (simp add: convert_timeout_def)

lemma int_of_double_trunc: "int_of_double x = Some k \<Longrightarrow> k = trunc x"
  by (simp add: int_of_double_def split: if_splits)

lemma convert_timeout_exact:
  fixes t :: rat
  assumes "0 \<le> t" and "t < 2 ^ 31"
    and "rnd (t - of_int \<lfloor>t\<rfloor>) = t - of_int \<lfloor>t\<rfloor>"
    and "rnd (1000000 * (t - of_int \<lfloor>t\<rfloor>)) = 1000000 * (t - of_int \<lfloor>t\<rfloor>)"
  shows "convert_timeout rnd (Some (PyFloat (Finite t))) =
           Inr (Some \<lparr>tv_sec = \<lfloor>t\<rfloor>, tv_usec = \<lfloor>1000000 * (t - of_int \<lfloor>t\<rfloor>)\<rfloor>\<rparr>)"
proof -
  have "0 \<le> \<lfloor>t\<rfloor>" and "\<lfloor>t\<rfloor> < 2 ^ 31"
    using assms(1,2) by (simp_all add: floor_less_iff)
  then have sec: "int_of_double t = Some \<lfloor>t\<rfloor>"
    using assms(1) by (simp add: int_of_double_def trunc_nonneg)
  let ?u = "1000000 * (t - of_int \<lfloor>t\<rfloor>)"
  have u: "0 \<le> ?u" "\<lfloor>?u\<rfloor> < 1000000"
    using usec_range [OF assms(1)] by simp_all
  define k where "k = \<lfloor>?u\<rfloor>"
  have tk: "trunc ?u = k"
    using u(1) unfolding k_def by (rule trunc_nonneg)
  have "0 \<le> k" and "k < 1000000"
    using u unfolding k_def by (simp_all only: zero_le_floor)
  then have "- (2 ^ 31) \<le> k \<and> k < 2 ^ 31"
    by simp
  then have "int_of_double ?u = Some k"
    unfolding int_of_double_def tk by simp
  then have "int_of_double ?u = Some \<lfloor>?u\<rfloor>"
    unfolding k_def .
  then have "int_of_double (rnd (1000000 * rnd (t - of_int \<lfloor>t\<rfloor>))) = Some \<lfloor>?u\<rfloor>"
    by (simp only: assms(3,4))
  from convert_timeout_float [where rnd = rnd, OF sec this] show ?thesis .
qed

text \<open>
  C5, as amended: with the timeout \<open>None\<close>, \<open>select\<close> gets no bound (the \<open>NULL\<close> pointer),
  and waits until the descriptor is ready. A timeout that is a float \<open>t\<close> whose integer
  part fits an \<open>int\<close> gives \<open>select\<close> the bound of \<open>t\<close> with its fraction dropped, towards
  zero, as seconds, and of the product \<open>1000000.0 * (t - seconds)\<close>, as the floating-point
  unit computes it, with its fraction dropped as microseconds. For \<open>0 \<le> t < 2 ^ 31\<close>,
  where the unit computes the difference and the product exactly, these are \<open>\<lfloor>t\<rfloor>\<close>
  seconds and the rest of \<open>t\<close> cut to whole microseconds. An integer timeout that
  rounds to a finite \<open>double\<close> is converted as the float of the same value; a larger one
  raises \<open>OverflowError\<close> before the wait.
\<close>

theorem timeout_conversion:
  assumes "convert_i a = Inr fd" and "0 \<le> fd" and "fd < FD_SETSIZE"
  shows "fst (get_events env [a, PyNone]) = Select (fd + 1) None # fst (after_select env fd) \<and>
         (int_of_double t = Some sec \<and>
          int_of_double (fp_round env (1000000 * fp_round env (t - of_int sec))) = Some usec \<longrightarrow>
            sec = trunc t \<and>
            usec = trunc (fp_round env (1000000 * fp_round env (t - of_int sec))) \<and>
            fst (get_events env [a, PyFloat (Finite t)]) =
              Select (fd + 1) (Some \<lparr>tv_sec = sec, tv_usec = usec\<rparr>) # fst (after_select env fd)) \<and>
         (0 \<le> t \<and> t < 2 ^ 31 \<and>
          fp_round env (t - of_int \<lfloor>t\<rfloor>) = t - of_int \<lfloor>t\<rfloor> \<and>
          fp_round env (1000000 * (t - of_int \<lfloor>t\<rfloor>)) = 1000000 * (t - of_int \<lfloor>t\<rfloor>) \<longrightarrow>
            fst (get_events env [a, PyFloat (Finite t)]) =
              Select (fd + 1)
                (Some \<lparr>tv_sec = \<lfloor>t\<rfloor>, tv_usec = \<lfloor>1000000 * (t - of_int \<lfloor>t\<rfloor>)\<rfloor>\<rparr>) #
              fst (after_select env fd)) \<and>
         (\<bar>i\<bar> < 2 ^ 1024 - 2 ^ 970 \<longrightarrow>
            get_events env [a, PyInt i] = get_events env [a, PyFloat (Finite (of_int i))]) \<and>
         (2 ^ 1024 - 2 ^ 970 \<le> \<bar>i\<bar> \<longrightarrow>
            get_events env [a, PyInt i] = ([], Some (Inl (Raise OverflowError Builtin))))"
proof -
  have 1: "fst (get_events env [a, PyNone]) = Select (fd + 1) None # fst (after_select env fd)"
    by (simp add: get_events_select [OF assms convert_timeout_None])
  have 2: "sec = trunc t \<and>
      usec = trunc (fp_round env (1000000 * fp_round env (t - of_int sec))) \<and>
      fst (get_events env [a, PyFloat (Finite t)]) =
        Select (fd + 1) (Some \<lparr>tv_sec = sec, tv_usec = usec\<rparr>) # fst (after_select env fd)"
    if "int_of_double t = Some sec"
      "int_of_double (fp_round env (1000000 * fp_round env (t - of_int sec))) = Some usec"
    using that int_of_double_trunc [OF that(1)] int_of_double_trunc [OF that(2)]
    by (simp add: get_events_select
        [OF assms convert_timeout_float [where rnd = "fp_round env", OF that]])
  have 3: "fst (get_events env [a, PyFloat (Finite t)]) =
      Select (fd + 1) (Some \<lparr>tv_sec = \<lfloor>t\<rfloor>, tv_usec = \<lfloor>1000000 * (t - of_int \<lfloor>t\<rfloor>)\<rfloor>\<rparr>) #
      fst (after_select env fd)"
    if "0 \<le> t" "t < 2 ^ 31" "fp_round env (t - of_int \<lfloor>t\<rfloor>) = t - of_int \<lfloor>t\<rfloor>"
      "fp_round env (1000000 * (t - of_int \<lfloor>t\<rfloor>)) = 1000000 * (t - of_int \<lfloor>t\<rfloor>)"
    by (simp add: get_events_select [OF assms convert_timeout_exact [OF that]])
  have 4: "get_events env [a, PyInt i] = get_events env [a, PyFloat (Finite (of_int i))]"
    if "\<bar>i\<bar> < 2 ^ 1024 - 2 ^ 970"
    using assms(1) that by (simp add: get_events_def prologue_def convert_timeout_int)
  have 5: "get_events env [a, PyInt i] = ([], Some (Inl (Raise OverflowError Builtin)))"
    if "2 ^ 1024 - 2 ^ 970 \<le> \<bar>i\<bar>"
    using assms(1) that by (simp add: get_events_def prologue_def convert_timeout_def)
  from 1 2 3 4 5 show ?thesis by blast
qed

text \<open>
  With one argument the pointer \<open>timeout_o\<close> stays \<open>NULL\<close>, which is not \<open>Py_None\<close>:
  line 116 passes it to \<open>PyFloat_AsDouble\<close>, which raises \<open>TypeError\<close>, and the call ends
  before the wait.
\<close>

lemma get_events_timeout_absent:
  "convert_i a = Inr fd \<Longrightarrow> get_events env [a] = ([], Some (Inl (Raise TypeError Builtin)))"
  by (simp add: get_events_def prologue_def convert_timeout_def)

lemma floor_minus_half: "\<lfloor>- (1 / 2) :: rat\<rfloor> = - 1"
  by (rule floor_unique) simp_all

lemma trunc_minus_half: "trunc (- (1 / 2)) = 0"
proof -
  have "\<lceil>- (1 / 2) :: rat\<rceil> = 0"
    by (rule ceiling_unique) simp_all
  then show ?thesis
    by (simp add: trunc_def)
qed

lemma trunc_three_halves: "trunc (3 / 2) = 1"
proof -
  have "\<lfloor>3 / 2 :: rat\<rfloor> = 1"
    by (rule floor_unique) simp_all
  then show ?thesis
    by (simp add: trunc_def)
qed

lemma trunc_of_int: "trunc (of_int k) = k"
  by (simp add: trunc_def)

text \<open>
  C5 as stated asks for \<open>\<lfloor>t\<rfloor>\<close> seconds for every timeout. The timeout \<open>- 0.5\<close> gives
  \<open>select\<close> 0 seconds and \<open>- 500000\<close> microseconds, where \<open>\<lfloor>- 0.5\<rfloor>\<close> is \<open>- 1\<close>.
\<close>

theorem negative_timeout_counterexample:
  "get_events env_wait_fails [PyInt 3, PyFloat (Finite (- 1 / 2))] =
     ([Select 4 (Some \<lparr>tv_sec = 0, tv_usec = - 500000\<rparr>)],
      Some (Inl (Raise IOError (Errno 22)))) \<and>
   \<lfloor>- 1 / 2 :: rat\<rfloor> = - 1"
proof -
  have "convert_timeout exact (Some (PyFloat (Finite (- 1 / 2)))) =
          Inr (Some \<lparr>tv_sec = 0, tv_usec = - 500000\<rparr>)"
  proof (rule convert_timeout_float)
    show "int_of_double (- 1 / 2) = Some 0"
      by (simp add: int_of_double_def trunc_minus_half)
    have "exact (1000000 * exact (- 1 / 2 - of_int 0)) = of_int (- 500000)"
      by (simp add: exact_def)
    then show "int_of_double (exact (1000000 * exact (- 1 / 2 - of_int 0))) = Some (- 500000)"
      by (simp only: int_of_double_def trunc_of_int) simp
  qed
  then have "prologue env_wait_fails [PyInt 3, PyFloat (Finite (- 1 / 2))] =
          Inr (3, Some \<lparr>tv_sec = 0, tv_usec = - 500000\<rparr>)"
    by (intro prologue_float) (simp_all add: FD_SETSIZE_def env_wait_fails_def)
  from get_events_after_prologue [OF this] show ?thesis
    by (simp add: after_select_def env_wait_fails_def floor_minus_half PyErr_SetFromErrno_def
        EINTR_def)
qed

lemma floor_three_halves: "\<lfloor>3 / 2 :: rat\<rfloor> = 1"
  by (rule floor_unique) simp_all

lemma after_select_idle: "after_select env_idle fd = ([], Some (Inr []))"
  by (simp add: after_select_def env_idle_def)

theorem timeout_conversion_witness:
  "convert_i (PyInt 3) = Inr 3 \<and> (0 :: int) \<le> 3 \<and> 3 < FD_SETSIZE \<and>
   int_of_double (3 / 2) = Some 1 \<and>
   int_of_double (fp_round env_idle (1000000 * fp_round env_idle (3 / 2 - of_int 1))) =
     Some 500000 \<and>
   (0 :: rat) \<le> 3 / 2 \<and> (3 / 2 :: rat) < 2 ^ 31 \<and>
   fp_round env_idle (3 / 2 - of_int \<lfloor>3 / 2 :: rat\<rfloor>) = 3 / 2 - of_int \<lfloor>3 / 2 :: rat\<rfloor> \<and>
   fp_round env_idle (1000000 * (3 / 2 - of_int \<lfloor>3 / 2 :: rat\<rfloor>)) =
     1000000 * (3 / 2 - of_int \<lfloor>3 / 2 :: rat\<rfloor>) \<and>
   fst (get_events env_idle [PyInt 3, PyNone]) = [Select 4 None] \<and>
   fst (get_events env_idle [PyInt 3, PyFloat (Finite (3 / 2))]) =
     [Select 4 (Some \<lparr>tv_sec = 1, tv_usec = 500000\<rparr>)] \<and>
   \<lfloor>3 / 2 :: rat\<rfloor> = 1 \<and> \<lfloor>1000000 * (3 / 2 - of_int \<lfloor>3 / 2 :: rat\<rfloor>) :: rat\<rfloor> = 500000 \<and>
   \<bar>5 :: int\<bar> < 2 ^ 1024 - 2 ^ 970 \<and>
   get_events env_idle [PyInt 3, PyInt 5] =
     get_events env_idle [PyInt 3, PyFloat (Finite (of_int 5))] \<and>
   (2 ^ 1024 - 2 ^ 970 :: int) \<le> \<bar>2 ^ 1024\<bar> \<and>
   get_events env_idle [PyInt 3, PyInt (2 ^ 1024)] =
     ([], Some (Inl (Raise OverflowError Builtin)))"
proof -
  have c: "convert_i (PyInt 3) = Inr 3" "(0 :: int) \<le> 3" "3 < FD_SETSIZE"
    by (simp_all add: FD_SETSIZE_def)
  have r: "fp_round env_idle = exact"
    by (simp add: env_idle_def)
  have s: "int_of_double (3 / 2) = Some 1"
    by (simp add: int_of_double_def trunc_three_halves)
  have "fp_round env_idle (1000000 * fp_round env_idle (3 / 2 - of_int 1)) = of_int 500000"
    by (simp add: r exact_def)
  then have u: "int_of_double (fp_round env_idle (1000000 * fp_round env_idle (3 / 2 - of_int 1))) =
      Some 500000"
    by (simp only: int_of_double_def trunc_of_int) simp
  have e: "(0 :: rat) \<le> 3 / 2" "(3 / 2 :: rat) < 2 ^ 31"
    "fp_round env_idle (3 / 2 - of_int \<lfloor>3 / 2 :: rat\<rfloor>) = 3 / 2 - of_int \<lfloor>3 / 2 :: rat\<rfloor>"
    "fp_round env_idle (1000000 * (3 / 2 - of_int \<lfloor>3 / 2 :: rat\<rfloor>)) =
       1000000 * (3 / 2 - of_int \<lfloor>3 / 2 :: rat\<rfloor>)"
    by (simp_all add: r exact_def)
  have f: "\<lfloor>1000000 * (3 / 2 - of_int \<lfloor>3 / 2 :: rat\<rfloor>) :: rat\<rfloor> = 500000"
    by (simp add: floor_three_halves)
  note t = timeout_conversion [OF c, of env_idle "3 / 2" 1 500000 5]
  note v = timeout_conversion [OF c, of env_idle "3 / 2" 1 500000 "2 ^ 1024"]
  have small: "\<bar>5 :: int\<bar> < 2 ^ 1024 - 2 ^ 970"
    by simp
  have large: "(2 ^ 1024 - 2 ^ 970 :: int) \<le> \<bar>2 ^ 1024\<bar>"
    by simp
  from t small
  have 4: "get_events env_idle [PyInt 3, PyInt 5] =
     get_events env_idle [PyInt 3, PyFloat (Finite (of_int 5))]"
    by blast
  from v large
  have 5: "get_events env_idle [PyInt 3, PyInt (2 ^ 1024)] =
     ([], Some (Inl (Raise OverflowError Builtin)))"
    by blast
  from t have 1: "fst (get_events env_idle [PyInt 3, PyNone]) = [Select 4 None]"
    by (simp add: after_select_idle)
  from t s u have 2: "fst (get_events env_idle [PyInt 3, PyFloat (Finite (3 / 2))]) =
     [Select 4 (Some \<lparr>tv_sec = 1, tv_usec = 500000\<rparr>)]"
    by (simp add: after_select_idle)
  from t [THEN conjunct2, THEN conjunct2, THEN conjunct1, THEN mp] e
  have 3: "fst (get_events env_idle [PyInt 3, PyFloat (Finite (3 / 2))]) =
     [Select 4 (Some \<lparr>tv_sec = \<lfloor>3 / 2 :: rat\<rfloor>,
        tv_usec = \<lfloor>1000000 * (3 / 2 - of_int \<lfloor>3 / 2 :: rat\<rfloor>) :: rat\<rfloor>\<rparr>)]"
    by (simp only: after_select_idle fst_conv) simp
  from c s u e 1 2 3 f floor_three_halves small 4 large 5 show ?thesis
    by (intro conjI)
qed

end
